(* ===== verification/Prelude.thy ===== *)
theory Prelude
  imports Complex_Main "HOL-Library.Word"
begin

text \<open>
  Shared vocabulary of the development: the names of the C++ scalar types as they are
  modelled, the C runtime operations the animation code calls (\<open>fmod\<close> and the
  conversion of a float to \<open>unsigned int\<close>), the collections of facts that the
  component theories extend, and generic lemmas on lists and on the runtime
  operations.

  Floating-point numbers (\<open>float\<close>, \<open>double\<close>) are modelled as \<open>real\<close>: the
  development reasons about the arithmetic the code means, not about rounding.
  Undefined behaviour of the C++ code (a NaN or out-of-range float converted to an
  unsigned integer, an out-of-range vector index) is the value \<open>None\<close>.
\<close>

type_synonym f32 = real
type_synonym f64 = real

named_theorems model_simps "equations that evaluate the model on concrete inputs"
named_theorems wrap_simps "facts about the wrapping of a playback time"

subsection \<open>The C runtime\<close>

text \<open>C's \<open>trunc\<close>: rounding towards zero.\<close>

definition trunc_real :: "real \<Rightarrow> int" where
  "trunc_real r = (if 0 \<le> r then \<lfloor>r\<rfloor> else \<lceil>r\<rceil>)"

text \<open>
  C's \<open>fmod(x, y)\<close>: \<open>x - n * y\<close> with \<open>n\<close> the quotient \<open>x / y\<close> truncated
  towards zero, so the result has the sign of \<open>x\<close>.
\<close>

definition fmod :: "real \<Rightarrow> real \<Rightarrow> real" where
  "fmod x y = x - of_int (trunc_real (x / y)) * y"

text \<open>
  C++'s conversion of a floating value to \<open>unsigned int\<close> (32 bits): the value is
  truncated towards zero, and the behaviour is undefined when the truncated value is not
  representable, that is unless \<open>-1 < x < 2^32\<close>.
\<close>

definition float_to_uint :: "real \<Rightarrow> nat option" where
  "float_to_uint x = (if -1 < x \<and> x < 2 ^ 32 then Some (nat (trunc_real x)) else None)"

declare trunc_real_def [model_simps] fmod_def [model_simps] float_to_uint_def [model_simps]

subsection \<open>Lemmas on the runtime operations\<close>

lemma trunc_real_nonneg [simp]: "0 \<le> r \<Longrightarrow> trunc_real r = \<lfloor>r\<rfloor>"
  by (simp add: trunc_real_def)

lemma fmod_nonneg_eq: "0 \<le> x \<Longrightarrow> 0 < y \<Longrightarrow> fmod x y = x - of_int \<lfloor>x / y\<rfloor> * y"
  by (simp add: fmod_def)

lemma fmod_nonneg_bounds [wrap_simps]:
  assumes "0 \<le> x" "0 < y"
  shows "0 \<le> fmod x y \<and> fmod x y < y"
proof -
  have "of_int \<lfloor>x / y\<rfloor> \<le> x / y"
    by linarith
  then have lo: "of_int \<lfloor>x / y\<rfloor> * y \<le> x"
    using assms(2) by (metis pos_le_divide_eq)
  have "x / y < of_int \<lfloor>x / y\<rfloor> + 1"
    by linarith
  then have hi: "x < (of_int \<lfloor>x / y\<rfloor> + 1) * y"
    using assms(2) by (metis pos_divide_less_eq)
  from lo hi assms show ?thesis
    by (simp add: fmod_nonneg_eq algebra_simps)
qed

lemma fmod_small [wrap_simps]: "0 \<le> x \<Longrightarrow> x < y \<Longrightarrow> fmod x y = x"
proof -
  assume "0 \<le> x" "x < y"
  then have "\<lfloor>x / y\<rfloor> = 0"
    by (simp add: floor_eq_iff)
  with \<open>0 \<le> x\<close> \<open>x < y\<close> show ?thesis
    by (simp add: fmod_nonneg_eq)
qed

lemma fmod_add_period [wrap_simps]:
  assumes "0 \<le> x" "0 < y"
  shows "fmod (x + y) y = fmod x y"
proof -
  have "(x + y) / y = x / y + 1"
    using assms by (simp add: field_simps)
  then have "\<lfloor>(x + y) / y\<rfloor> = \<lfloor>x / y\<rfloor> + 1"
    by simp
  with assms show ?thesis
    by (simp add: fmod_nonneg_eq algebra_simps)
qed

lemma fmod_neg_bounds [wrap_simps]:
  assumes "x < 0" "0 < y"
  shows "- y < fmod x y \<and> fmod x y \<le> 0"
proof -
  have q: "x / y < 0"
    using assms by (simp add: divide_neg_pos)
  have "x / y \<le> of_int \<lceil>x / y\<rceil>"
    by linarith
  then have hi: "x \<le> of_int \<lceil>x / y\<rceil> * y"
    using assms(2) by (metis pos_divide_le_eq)
  have "of_int \<lceil>x / y\<rceil> - 1 < x / y"
    by linarith
  then have lo: "(of_int \<lceil>x / y\<rceil> - 1) * y < x"
    using assms(2) by (simp add: pos_less_divide_eq)
  from lo hi assms q show ?thesis
    by (simp add: fmod_def trunc_real_def algebra_simps)
qed

lemma float_to_uint_nonneg:
  "0 \<le> x \<Longrightarrow> x < 2 ^ 32 \<Longrightarrow> float_to_uint x = Some (nat \<lfloor>x\<rfloor>)"
  by (simp add: float_to_uint_def)

lemma nat_floor_less_of_nat:
  "0 \<le> x \<Longrightarrow> x < of_nat n \<Longrightarrow> nat \<lfloor>x\<rfloor> < n"
  by (simp add: nat_less_iff floor_less_iff)

subsection \<open>Lists\<close>

lemma foldl_upt_Suc:
  "foldl f a [0..<Suc n] = f (foldl f a [0..<n]) n"
  by simp

lemma sorted_nth_le:
  "sorted xs \<Longrightarrow> i \<le> j \<Longrightarrow> j < length xs \<Longrightarrow> xs ! i \<le> xs ! j"
  by (simp add: sorted_iff_nth_mono)

end
