(* ===== verification/Math.thy ===== *)
theory Math
  imports Prelude
begin

text \<open>
  The value types the animation code computes with: assimp's \<open>aiVector3D\<close>,
  \<open>aiQuaternion\<close>, \<open>aiMatrix3x3\<close>, \<open>aiMatrix4x4\<close> and the key types
  \<open>aiVectorKey\<close>/\<open>aiQuatKey\<close>, and the engine's \<open>mat4\<close> (MyMath.h). The assimp
  operations the code calls (vector arithmetic, the quaternion's rotation matrix, the
  quaternion interpolation) and \<open>mat4\<close>'s product and identity are library code outside
  this repository; they are modelled from their documented behaviour. The repository's own
  code here is \<open>TransformMatrix\<close> (the field-by-field copy of an \<open>aiMatrix4x4\<close> into a
  \<open>mat4\<close>) and the composition of a bone's local matrix from its interpolated position,
  rotation and scaling in \<open>cAnimEvaluator::Evaluate\<close>.

  \<open>mat4\<close> is an instance of \<open>monoid_mult\<close>: its product is associative with the
  identity as unit, which is all the propagation of global transforms relies on.
\<close>

subsection \<open>Vectors, quaternions and keys\<close>

datatype vec3 = Vec3 (vx: real) (vy: real) (vz: real)

text \<open>\<open>aiQuaternion(w, x, y, z)\<close>: the constructor takes \<open>w\<close> first.\<close>

datatype quat = Quat (qw: real) (qx: real) (qy: real) (qz: real)

text \<open>\<open>aiVectorKey\<close> and \<open>aiQuatKey\<close>: a time stamp (a \<open>double\<close>) and a value.\<close>

record 'v key =
  key_time :: f64
  key_value :: 'v

fun vec_add :: "vec3 \<Rightarrow> vec3 \<Rightarrow> vec3" where
  "vec_add (Vec3 a b c) (Vec3 d e f) = Vec3 (a + d) (b + e) (c + f)"

fun vec_sub :: "vec3 \<Rightarrow> vec3 \<Rightarrow> vec3" where
  "vec_sub (Vec3 a b c) (Vec3 d e f) = Vec3 (a - d) (b - e) (c - f)"

fun vec_scale :: "vec3 \<Rightarrow> real \<Rightarrow> vec3" where
  "vec_scale (Vec3 a b c) s = Vec3 (a * s) (b * s) (c * s)"

text \<open>Linear interpolation as \<open>Evaluate\<close> writes it for positions:
  \<open>key.mValue + (nextKey.mValue - key.mValue) * factor\<close>.\<close>

definition vec_lerp :: "vec3 \<Rightarrow> vec3 \<Rightarrow> real \<Rightarrow> vec3" where
  "vec_lerp a b f = vec_add a (vec_scale (vec_sub b a) f)"

text \<open>
  \<open>aiQuaternion::Interpolate\<close>: spherical interpolation. The end quaternion is negated
  when the cosine of the angle between the two is negative; when the two are closer than
  \<open>0.0001\<close> in cosine, the coefficients are the linear ones.
\<close>

definition slerp_coeffs :: "real \<Rightarrow> real \<Rightarrow> real \<times> real" where
  "slerp_coeffs cosom f =
     (if 1 - cosom > 0.0001
      then (let omega = arccos cosom; sinom = sin omega
            in (sin ((1 - f) * omega) / sinom, sin (f * omega) / sinom))
      else (1 - f, f))"

definition quat_slerp :: "quat \<Rightarrow> quat \<Rightarrow> real \<Rightarrow> quat" where
  "quat_slerp p q f =
     (let cosom0 = qx p * qx q + qy p * qy q + qz p * qz q + qw p * qw q;
          cosom = (if cosom0 < 0 then - cosom0 else cosom0);
          e = (if cosom0 < 0 then Quat (- qw q) (- qx q) (- qy q) (- qz q) else q);
          (sclp, sclq) = slerp_coeffs cosom f
      in Quat (sclp * qw p + sclq * qw e) (sclp * qx p + sclq * qx e)
              (sclp * qy p + sclq * qy e) (sclp * qz p + sclq * qz e))"

subsection \<open>Matrices\<close>

text \<open>\<open>aiMatrix3x3\<close> and \<open>aiMatrix4x4\<close>, row-major: \<open>a1 a2 a3 (a4)\<close> is the first row.\<close>

datatype aimat3 = AiMat3 real real real  real real real  real real real

datatype aimat4 = AiMat4 real real real real  real real real real
                         real real real real  real real real real

text \<open>\<open>aiQuaternion::GetMatrix\<close>: the rotation matrix of a unit quaternion.\<close>

fun quat_get_matrix :: "quat \<Rightarrow> aimat3" where
  "quat_get_matrix (Quat w x y z) =
     AiMat3 (1 - 2 * (y * y + z * z)) (2 * (x * y - z * w)) (2 * (x * z + y * w))
            (2 * (x * y + z * w)) (1 - 2 * (x * x + z * z)) (2 * (y * z - x * w))
            (2 * (x * z - y * w)) (2 * (y * z + x * w)) (1 - 2 * (x * x + y * y))"

text \<open>\<open>aiMatrix4x4(const aiMatrix3x3&)\<close>: the 3x3 block, no translation.\<close>

fun aimat4_of_mat3 :: "aimat3 \<Rightarrow> aimat4" where
  "aimat4_of_mat3 (AiMat3 a1 a2 a3 b1 b2 b3 c1 c2 c3) =
     AiMat4 a1 a2 a3 0  b1 b2 b3 0  c1 c2 c3 0  0 0 0 1"

fun ai_transpose :: "aimat4 \<Rightarrow> aimat4" where
  "ai_transpose (AiMat4 a1 a2 a3 a4 b1 b2 b3 b4 c1 c2 c3 c4 d1 d2 d3 d4) =
     AiMat4 a1 b1 c1 d1 a2 b2 c2 d2 a3 b3 c3 d3 a4 b4 c4 d4"

text \<open>The engine's \<open>mat4\<close>, fields \<open>_11 \<dots> _44\<close> in row order.\<close>

datatype mat4 = Mat4 real real real real  real real real real
                     real real real real  real real real real

instantiation mat4 :: monoid_mult
begin

fun times_mat4 :: "mat4 \<Rightarrow> mat4 \<Rightarrow> mat4" where
  "times_mat4 (Mat4 a11 a12 a13 a14 a21 a22 a23 a24 a31 a32 a33 a34 a41 a42 a43 a44)
              (Mat4 b11 b12 b13 b14 b21 b22 b23 b24 b31 b32 b33 b34 b41 b42 b43 b44) =
     Mat4 (a11*b11 + a12*b21 + a13*b31 + a14*b41) (a11*b12 + a12*b22 + a13*b32 + a14*b42)
          (a11*b13 + a12*b23 + a13*b33 + a14*b43) (a11*b14 + a12*b24 + a13*b34 + a14*b44)
          (a21*b11 + a22*b21 + a23*b31 + a24*b41) (a21*b12 + a22*b22 + a23*b32 + a24*b42)
          (a21*b13 + a22*b23 + a23*b33 + a24*b43) (a21*b14 + a22*b24 + a23*b34 + a24*b44)
          (a31*b11 + a32*b21 + a33*b31 + a34*b41) (a31*b12 + a32*b22 + a33*b32 + a34*b42)
          (a31*b13 + a32*b23 + a33*b33 + a34*b43) (a31*b14 + a32*b24 + a33*b34 + a34*b44)
          (a41*b11 + a42*b21 + a43*b31 + a44*b41) (a41*b12 + a42*b22 + a43*b32 + a44*b42)
          (a41*b13 + a42*b23 + a43*b33 + a44*b43) (a41*b14 + a42*b24 + a43*b34 + a44*b44)"

definition one_mat4 :: mat4 where
  "one_mat4 = Mat4 1 0 0 0  0 1 0 0  0 0 1 0  0 0 0 1"

instance
proof
  fix a b c :: mat4
  show "a * b * c = a * (b * c)"
    by (cases a; cases b; cases c) (simp add: algebra_simps)
  show "1 * a = a"
    by (cases a) (simp add: one_mat4_def)
  show "a * 1 = a"
    by (cases a) (simp add: one_mat4_def)
qed

end

fun mat4_transpose :: "mat4 \<Rightarrow> mat4" where
  "mat4_transpose (Mat4 a11 a12 a13 a14 a21 a22 a23 a24 a31 a32 a33 a34 a41 a42 a43 a44) =
     Mat4 a11 a21 a31 a41 a12 a22 a32 a42 a13 a23 a33 a43 a14 a24 a34 a44"

text \<open>\<open>TransformMatrix(out, in)\<close>: \<open>out._11 = in.a1; \<dots>; out._44 = in.d4\<close>.\<close>

fun transform_matrix :: "aimat4 \<Rightarrow> mat4" where
  "transform_matrix (AiMat4 a1 a2 a3 a4 b1 b2 b3 b4 c1 c2 c3 c4 d1 d2 d3 d4) =
     Mat4 a1 a2 a3 a4 b1 b2 b3 b4 c1 c2 c3 c4 d1 d2 d3 d4"

text \<open>
  The local matrix of a bone in \<open>Evaluate\<close>: the rotation matrix, its columns scaled by
  the scaling's components (\<open>mat.a1 *= x; mat.b1 *= x; mat.c1 *= x; \<dots>\<close>), the
  position written into the translation column (\<open>mat.a4 = x; mat.b4 = y; mat.c4 = z\<close>),
  then transposed and copied into a \<open>mat4\<close>.
\<close>

fun scale_and_translate :: "aimat4 \<Rightarrow> vec3 \<Rightarrow> vec3 \<Rightarrow> aimat4" where
  "scale_and_translate (AiMat4 a1 a2 a3 a4 b1 b2 b3 b4 c1 c2 c3 c4 d1 d2 d3 d4)
                       (Vec3 sx sy sz) (Vec3 px py pz) =
     AiMat4 (a1 * sx) (a2 * sy) (a3 * sz) px
            (b1 * sx) (b2 * sy) (b3 * sz) py
            (c1 * sx) (c2 * sy) (c3 * sz) pz
            d1 d2 d3 d4"

definition compose_local :: "vec3 \<Rightarrow> quat \<Rightarrow> vec3 \<Rightarrow> mat4" where
  "compose_local pos rot scl =
     transform_matrix (ai_transpose
       (scale_and_translate (aimat4_of_mat3 (quat_get_matrix rot)) scl pos))"

subsection \<open>Lemmas\<close>

lemma vec_lerp_zero [simp]: "vec_lerp a b 0 = a"
  by (cases a; cases b) (simp add: vec_lerp_def)

lemma vec_lerp_same [simp]: "vec_lerp a a f = a"
  by (cases a) (simp add: vec_lerp_def)

lemma sin_arccos_pos: "0 \<le> c \<Longrightarrow> c < 1 \<Longrightarrow> 0 < sin (arccos c)"
proof -
  assume "0 \<le> c" "c < 1"
  then have "c\<^sup>2 < 1"
    by (simp add: power_less_one_iff)
  with \<open>0 \<le> c\<close> \<open>c < 1\<close> show ?thesis
    by (simp add: sin_arccos)
qed

lemma slerp_coeffs_zero: "0 \<le> c \<Longrightarrow> slerp_coeffs c 0 = (1, 0)"
  by (auto simp: slerp_coeffs_def Let_def dest: sin_arccos_pos)

lemma quat_slerp_zero [simp]: "quat_slerp p q 0 = p"
  by (cases p) (simp add: quat_slerp_def Let_def slerp_coeffs_zero)

lemma mat4_transpose_transpose [simp]: "mat4_transpose (mat4_transpose m) = m"
  by (cases m) simp

lemma compose_local_identity [simp]:
  "compose_local (Vec3 0 0 0) (Quat 1 0 0 0) (Vec3 1 1 1) = 1"
  by (simp add: compose_local_def one_mat4_def)

end
