(* ===== verification/Channel.thy ===== *)
theory Channel
  imports Math
begin

text \<open>
  One animation channel (\<open>cAnimationChannel\<close>, cAnimationController.h) and the per-track
  part of \<open>cAnimEvaluator::Evaluate\<close> (cAnimationController.cpp, lines 157-233): the
  seek of the present key from a cursor, the interpolation between the present key and
  the next one, and the composition of the channel's local matrix. A cursor is the triple
  of frame indices \<open>mLastPositions[a]\<close> kept for the channel between calls.

  The reference \<open>key_index\<close> is the stateless answer to the seek, the number of keys
  after the first whose time is at most the present time; \<open>channel_pose\<close> is the local
  matrix computed from it. The lemmas show that the seek from a cursor finds the same key
  as the reference whenever the cursor is valid (\<open>cursor_ok\<close>) and the keys are
  sorted by time, and that every evaluation leaves a valid cursor behind.
\<close>

record channel =
  ch_name :: string
  position_keys :: "vec3 key list"
  rotation_keys :: "quat key list"
  scaling_keys :: "vec3 key list"

type_synonym cursor = "nat \<times> nat \<times> nat"

subsection \<open>The seek\<close>

text \<open>
  \<^verbatim>\<open>while( frame < keys.size() - 1){
      if( time < keys[frame+1].mTime) break;
      frame++; }\<close>
\<close>

function seek_frame :: "'v key list \<Rightarrow> f32 \<Rightarrow> nat \<Rightarrow> nat" where
  "seek_frame ks t frame =
     (if frame < length ks - 1
      then (if t < key_time (ks ! (frame + 1)) then frame else seek_frame ks t (frame + 1))
      else frame)"
  by pat_completeness auto
termination
  by (relation "measure (\<lambda>(ks, t, frame). length ks - frame)") auto

declare seek_frame.simps [simp del]

text \<open>\<open>frame = (time >= mLastTime) ? std::get<i>(mLastPositions[a]) : 0\<close>.\<close>

definition start_frame :: "f32 \<Rightarrow> f32 \<Rightarrow> nat \<Rightarrow> nat" where
  "start_frame t prev c = (if prev \<le> t then c else 0)"

text \<open>
  The interpolation between the present key and the next one, the next of the last key
  being the first (\<open>(frame + 1) % size\<close>); a negative time difference is moved up by
  the duration, and a difference that is not positive gives the present key's value.
\<close>

definition interp_keys :: "('v \<Rightarrow> 'v \<Rightarrow> real \<Rightarrow> 'v) \<Rightarrow> f32 \<Rightarrow> 'v key list \<Rightarrow> f32 \<Rightarrow> nat \<Rightarrow> 'v" where
  "interp_keys interp dur ks t frame =
     (let k = ks ! frame; nk = ks ! ((frame + 1) mod length ks);
          d0 = key_time nk - key_time k;
          d = (if d0 < 0 then d0 + dur else d0)
      in if 0 < d then interp (key_value k) (key_value nk) ((t - key_time k) / d)
         else key_value k)"

text \<open>The three tracks: each returns its value and the cursor to keep.\<close>

definition position_track :: "f32 \<Rightarrow> f32 \<Rightarrow> f32 \<Rightarrow> vec3 key list \<Rightarrow> nat \<Rightarrow> vec3 \<times> nat" where
  "position_track dur t prev ks c =
     (if 0 < length ks
      then (let frame = seek_frame ks t (start_frame t prev c)
            in (interp_keys vec_lerp dur ks t frame, frame))
      else (Vec3 0 0 0, c))"

definition rotation_track :: "f32 \<Rightarrow> f32 \<Rightarrow> f32 \<Rightarrow> quat key list \<Rightarrow> nat \<Rightarrow> quat \<times> nat" where
  "rotation_track dur t prev ks c =
     (if 0 < length ks
      then (let frame = seek_frame ks t (start_frame t prev c)
            in (interp_keys quat_slerp dur ks t frame, frame))
      else (Quat 1 0 0 0, c))"

text \<open>The scaling track takes the present key's value: the code does not interpolate it.\<close>

definition scaling_track :: "f32 \<Rightarrow> f32 \<Rightarrow> vec3 key list \<Rightarrow> nat \<Rightarrow> vec3 \<times> nat" where
  "scaling_track t prev ks c =
     (if 0 < length ks
      then (let frame = seek_frame ks t (start_frame t prev c)
            in (key_value (ks ! frame), frame))
      else (Vec3 1 1 1, c))"

fun eval_channel :: "f32 \<Rightarrow> f32 \<Rightarrow> f32 \<Rightarrow> channel \<Rightarrow> cursor \<Rightarrow> cursor \<times> mat4" where
  "eval_channel dur t prev ch (p, r, s) =
     (let (pos, p') = position_track dur t prev (position_keys ch) p;
          (rot, r') = rotation_track dur t prev (rotation_keys ch) r;
          (scl, s') = scaling_track t prev (scaling_keys ch) s
      in ((p', r', s'), compose_local pos rot scl))"

subsection \<open>The reference and the invariant\<close>

definition key_index :: "'v key list \<Rightarrow> f32 \<Rightarrow> nat" where
  "key_index ks t = length (takeWhile (\<lambda>k. key_time k \<le> t) (drop 1 ks))"

definition channel_pose :: "f32 \<Rightarrow> f32 \<Rightarrow> channel \<Rightarrow> mat4" where
  "channel_pose dur t ch =
     (let pk = position_keys ch; rk = rotation_keys ch; sk = scaling_keys ch
      in compose_local
           (if pk = [] then Vec3 0 0 0 else interp_keys vec_lerp dur pk t (key_index pk t))
           (if rk = [] then Quat 1 0 0 0 else interp_keys quat_slerp dur rk t (key_index rk t))
           (if sk = [] then Vec3 1 1 1 else key_value (sk ! key_index sk t)))"

definition cursor_ok :: "'v key list \<Rightarrow> f32 \<Rightarrow> nat \<Rightarrow> bool" where
  "cursor_ok ks prev c \<longleftrightarrow> c = 0 \<or> (c < length ks \<and> key_time (ks ! c) \<le> prev)"

fun channel_cursor_ok :: "channel \<Rightarrow> f32 \<Rightarrow> cursor \<Rightarrow> bool" where
  "channel_cursor_ok ch prev (p, r, s) \<longleftrightarrow>
     cursor_ok (position_keys ch) prev p \<and> cursor_ok (rotation_keys ch) prev r \<and>
     cursor_ok (scaling_keys ch) prev s"

definition keys_sorted :: "'v key list \<Rightarrow> bool" where
  "keys_sorted ks \<longleftrightarrow> sorted (map key_time ks)"

definition channel_sorted :: "channel \<Rightarrow> bool" where
  "channel_sorted ch \<longleftrightarrow>
     keys_sorted (position_keys ch) \<and> keys_sorted (rotation_keys ch) \<and>
     keys_sorted (scaling_keys ch)"

lemmas track_defs = position_track_def rotation_track_def scaling_track_def

subsection \<open>The seek against the reference\<close>

lemma seek_frame_eq:
  "frame < length ks \<Longrightarrow>
   seek_frame ks t frame = frame + length (takeWhile (\<lambda>k. key_time k \<le> t) (drop (Suc frame) ks))"
proof (induction ks t frame rule: seek_frame.induct)
  case (1 ks t frame)
  show ?case
  proof (cases "frame < length ks - 1")
    case inner: True
    then have d: "drop (Suc frame) ks = ks ! Suc frame # drop (Suc (Suc frame)) ks"
      by (simp add: Cons_nth_drop_Suc)
    show ?thesis
    proof (cases "t < key_time (ks ! (frame + 1))")
      case True
      with inner d show ?thesis
        by (simp add: seek_frame.simps [of ks t frame])
    next
      case False
      with "1.IH" inner have "seek_frame ks t (frame + 1) =
          frame + 1 + length (takeWhile (\<lambda>k. key_time k \<le> t) (drop (Suc (frame + 1)) ks))"
        by simp
      with False inner d show ?thesis
        by (simp add: seek_frame.simps [of ks t frame])
    qed
  next
    case False
    with "1.prems" have "length ks \<le> Suc frame"
      by simp
    with False show ?thesis
      by (simp add: seek_frame.simps [of ks t frame])
  qed
qed

lemma seek_frame_zero: "ks \<noteq> [] \<Longrightarrow> seek_frame ks t 0 = key_index ks t"
  by (simp add: seek_frame_eq key_index_def)

lemma seek_frame_less: "frame < length ks \<Longrightarrow> seek_frame ks t frame < length ks"
proof -
  assume a: "frame < length ks"
  have "length (takeWhile (\<lambda>k. key_time k \<le> t) (drop (Suc frame) ks)) \<le> length ks - Suc frame"
    by (metis length_drop length_takeWhile_le)
  with a show ?thesis
    by (simp add: seek_frame_eq)
qed

lemma key_index_less: "ks \<noteq> [] \<Longrightarrow> key_index ks t < length ks"
  by (metis length_greater_0_conv seek_frame_less seek_frame_zero)

lemma seek_frame_cursor:
  assumes sorted: "keys_sorted ks" and c: "c < length ks" and le: "key_time (ks ! c) \<le> t"
  shows "seek_frame ks t c = seek_frame ks t 0"
proof -
  let ?P = "\<lambda>k. key_time k \<le> t"
  let ?pre = "take c (drop 1 ks)"
  have split: "drop 1 ks = ?pre @ drop (Suc c) ks"
    by (metis append_take_drop_id drop_drop plus_1_eq_Suc add.commute)
  have all: "\<And>k. k \<in> set ?pre \<Longrightarrow> ?P k"
  proof -
    fix k
    assume "k \<in> set ?pre"
    then obtain j where j: "j < c" "Suc j < length ks" "k = ks ! Suc j"
      by (auto simp: in_set_conv_nth)
    have "map key_time ks ! Suc j \<le> map key_time ks ! c"
      using sorted j c by (intro sorted_nth_le) (simp_all add: keys_sorted_def)
    with j c le show "?P k"
      by simp
  qed
  have "takeWhile ?P (drop 1 ks) = ?pre @ takeWhile ?P (drop (Suc c) ks)"
    by (subst split) (rule takeWhile_append2, rule all)
  moreover have "length ?pre = c" and "0 < length ks"
    using c by auto
  ultimately show ?thesis
    using c by (simp add: seek_frame_eq)
qed

lemma start_frame_ok: "cursor_ok ks prev c \<Longrightarrow> cursor_ok ks t (start_frame t prev c)"
  by (auto simp: start_frame_def cursor_ok_def)

lemma seek_frame_ok: "cursor_ok ks t frame \<Longrightarrow> cursor_ok ks t (seek_frame ks t frame)"
proof (induction ks t frame rule: seek_frame.induct)
  case (1 ks t frame)
  show ?case
  proof (cases "frame < length ks - 1 \<and> \<not> t < key_time (ks ! (frame + 1))")
    case True
    then have "frame + 1 < length ks" and "key_time (ks ! (frame + 1)) \<le> t"
      by linarith+
    then have "cursor_ok ks t (frame + 1)"
      by (simp add: cursor_ok_def)
    with "1.IH" True show ?thesis
      by (simp add: seek_frame.simps [of ks t frame])
  next
    case False
    with "1.prems" show ?thesis
      by (auto simp: seek_frame.simps [of ks t frame])
  qed
qed

lemma cursor_ok_Nil: "cursor_ok [] prev c \<longleftrightarrow> c = 0"
  by (simp add: cursor_ok_def)

lemma track_seek_ref:
  assumes "keys_sorted ks" "cursor_ok ks prev c" "ks \<noteq> []"
  shows "seek_frame ks t (start_frame t prev c) = key_index ks t"
proof (cases "prev \<le> t \<and> c \<noteq> 0")
  case True
  with assms(2) have "c < length ks" "key_time (ks ! c) \<le> t"
    by (auto simp: cursor_ok_def)
  with True assms show ?thesis
    by (simp add: start_frame_def seek_frame_cursor seek_frame_zero)
next
  case False
  with assms(3) show ?thesis
    by (auto simp: start_frame_def seek_frame_zero)
qed

lemma seek_start_ok: "cursor_ok ks prev c \<Longrightarrow> cursor_ok ks t (seek_frame ks t (start_frame t prev c))"
  by (intro seek_frame_ok start_frame_ok)

lemma position_track_ok:
  "cursor_ok ks prev c \<Longrightarrow> cursor_ok ks t (snd (position_track dur t prev ks c))"
  by (auto simp: position_track_def Let_def cursor_ok_Nil seek_start_ok)

lemma rotation_track_ok:
  "cursor_ok ks prev c \<Longrightarrow> cursor_ok ks t (snd (rotation_track dur t prev ks c))"
  by (auto simp: rotation_track_def Let_def cursor_ok_Nil seek_start_ok)

lemma scaling_track_ok:
  "cursor_ok ks prev c \<Longrightarrow> cursor_ok ks t (snd (scaling_track t prev ks c))"
  by (auto simp: scaling_track_def Let_def cursor_ok_Nil seek_start_ok)

lemma position_track_ref:
  "keys_sorted ks \<Longrightarrow> cursor_ok ks prev c \<Longrightarrow> fst (position_track dur t prev ks c) =
     (if ks = [] then Vec3 0 0 0 else interp_keys vec_lerp dur ks t (key_index ks t))"
  by (simp add: position_track_def Let_def track_seek_ref)

lemma rotation_track_ref:
  "keys_sorted ks \<Longrightarrow> cursor_ok ks prev c \<Longrightarrow> fst (rotation_track dur t prev ks c) =
     (if ks = [] then Quat 1 0 0 0 else interp_keys quat_slerp dur ks t (key_index ks t))"
  by (simp add: rotation_track_def Let_def track_seek_ref)

lemma scaling_track_ref:
  "keys_sorted ks \<Longrightarrow> cursor_ok ks prev c \<Longrightarrow> fst (scaling_track t prev ks c) =
     (if ks = [] then Vec3 1 1 1 else key_value (ks ! key_index ks t))"
  by (simp add: scaling_track_def Let_def track_seek_ref)

lemma eval_channel_split:
  "eval_channel dur t prev ch (p, r, s) =
     ((snd (position_track dur t prev (position_keys ch) p),
       snd (rotation_track dur t prev (rotation_keys ch) r),
       snd (scaling_track t prev (scaling_keys ch) s)),
      compose_local (fst (position_track dur t prev (position_keys ch) p))
                    (fst (rotation_track dur t prev (rotation_keys ch) r))
                    (fst (scaling_track t prev (scaling_keys ch) s)))"
  by (simp add: split_def Let_def)

lemma eval_channel_ok:
  "channel_cursor_ok ch prev cur \<Longrightarrow> channel_cursor_ok ch t (fst (eval_channel dur t prev ch cur))"
  by (cases cur) (simp only: eval_channel_split, auto simp: position_track_ok rotation_track_ok scaling_track_ok)

lemma eval_channel_pose:
  "channel_sorted ch \<Longrightarrow> channel_cursor_ok ch prev cur \<Longrightarrow>
   snd (eval_channel dur t prev ch cur) = channel_pose dur t ch"
  by (cases cur) (simp only: eval_channel_split, simp add: channel_sorted_def channel_pose_def Let_def
      position_track_ref rotation_track_ref scaling_track_ref)

subsection \<open>Values at a key\<close>

lemma key_index_between:
  assumes sorted: "keys_sorted ks" and i: "i < length ks" and lo: "key_time (ks ! i) \<le> t"
    and hi: "Suc i < length ks \<Longrightarrow> t < key_time (ks ! Suc i)"
  shows "key_index ks t = i"
proof -
  have "seek_frame ks t i = seek_frame ks t 0"
    using sorted i lo by (rule seek_frame_cursor)
  moreover have "seek_frame ks t i = i"
    using hi by (simp add: seek_frame.simps [of ks t i])
  moreover have "ks \<noteq> []"
    using i by auto
  ultimately show ?thesis
    by (simp add: seek_frame_zero)
qed

lemma key_index_at_key:
  assumes strict: "sorted_wrt (<) (map key_time ks)" and i: "i < length ks"
  shows "key_index ks (key_time (ks ! i)) = i"
proof -
  have "keys_sorted ks"
    using strict by (simp add: keys_sorted_def strict_sorted_imp_sorted)
  then have "seek_frame ks (key_time (ks ! i)) i = seek_frame ks (key_time (ks ! i)) 0"
    using i by (rule seek_frame_cursor) simp
  moreover have "seek_frame ks (key_time (ks ! i)) i = i"
  proof (cases "i < length ks - 1")
    case True
    have "map key_time ks ! i < map key_time ks ! (i + 1)"
      using sorted_wrt_nth_less [OF strict, of i "i + 1"] True by simp
    with True show ?thesis
      by (simp add: seek_frame.simps [of ks _ i])
  next
    case False
    then show ?thesis
      by (simp add: seek_frame.simps [of ks _ i])
  qed
  moreover have "ks \<noteq> []"
    using i by auto
  ultimately show ?thesis
    by (simp add: seek_frame_zero)
qed

lemma interp_keys_at_key:
  assumes "\<And>a b. interp a b 0 = a" "i < length ks"
  shows "interp_keys interp dur ks (key_time (ks ! i)) i = key_value (ks ! i)"
  using assms by (simp add: interp_keys_def Let_def)

subsection \<open>Properties of the tracks\<close>

text \<open>C3: between two keys of a sorted position track, the position is the linear
  interpolation of the two keys' values, whatever valid cursor the seek starts from.\<close>

theorem position_track_between:
  assumes "keys_sorted ks" "cursor_ok ks prev c" "Suc i < length ks"
    and "key_time (ks ! i) \<le> t" "t < key_time (ks ! Suc i)"
  shows "fst (position_track dur t prev ks c) =
    vec_lerp (key_value (ks ! i)) (key_value (ks ! Suc i))
             ((t - key_time (ks ! i)) / (key_time (ks ! Suc i) - key_time (ks ! i)))"
proof -
  have idx: "key_index ks t = i"
    using assms by (intro key_index_between) simp_all
  have "Suc i mod length ks = Suc i"
    using assms(3) by simp
  with assms idx show ?thesis
    by (auto simp: position_track_ref interp_keys_def Let_def)
qed

text \<open>C4: between two keys of a sorted scaling track, the scaling is the earlier key's
  value: the code does not interpolate scalings.\<close>

theorem scaling_track_between:
  assumes "keys_sorted ks" "cursor_ok ks prev c" "Suc i < length ks"
    and "key_time (ks ! i) \<le> t" "t < key_time (ks ! Suc i)"
  shows "fst (scaling_track t prev ks c) = key_value (ks ! i)"
proof -
  have "key_index ks t = i"
    using assms by (intro key_index_between) simp_all
  with assms show ?thesis
    by (auto simp: scaling_track_ref)
qed

text \<open>C10: at the time stamp of a key of a strictly increasing position track, the
  position is that key's value.\<close>

theorem position_track_at_key:
  assumes "sorted_wrt (<) (map key_time ks)" "i < length ks" "cursor_ok ks prev c"
  shows "fst (position_track dur (key_time (ks ! i)) prev ks c) = key_value (ks ! i)"
proof -
  have "keys_sorted ks"
    using assms(1) by (simp add: keys_sorted_def strict_sorted_imp_sorted)
  with assms show ?thesis
    by (auto simp: position_track_ref key_index_at_key interp_keys_at_key)
qed

text \<open>C11: a channel with no keys in any track leaves its cursor as it was and gives the
  identity matrix: zero position, identity rotation, unit scaling.\<close>

theorem eval_channel_no_keys:
  assumes "position_keys ch = []" "rotation_keys ch = []" "scaling_keys ch = []"
  shows "eval_channel dur t prev ch cur = (cur, 1)"
  using assms by (cases cur) (simp add: track_defs)

end
