(* ===== verification/Evaluator.thy ===== *)
theory Evaluator
  imports Channel
begin

text \<open>
  \<open>cAnimEvaluator\<close> (cAnimationController.h lines 32-49, cAnimationController.cpp lines
  27-55 and 139-236): one animation, its channels, the per-channel cursors
  \<open>mLastPositions\<close>, the wrapped time of the last evaluation \<open>mLastTime\<close> and the baked
  frames \<open>Transforms\<close>.

  \<open>evaluate\<close> is \<open>Evaluate(pTime, bones)\<close>: the bone map is a partial map from names
  to bone handles of any type \<open>'b\<close>, and instead of writing each bone's
  \<open>LocalTransform\<close> the model returns the writes in the order the code performs them; the
  caller (the scene animator) applies them to its bone store. \<open>Evaluate\<close> reads no bone's
  transform, so returning the writes loses nothing.

  \<open>PlayAnimationForward\<close> is a \<open>bool option\<close>: the constructor from an
  \<open>aiAnimation\<close> never initialises it, and \<open>None\<close> is that indeterminate value,
  whose use is undefined behaviour.
\<close>

record ai_node_anim =
  na_node_name :: string
  na_position_keys :: "vec3 key list"
  na_rotation_keys :: "quat key list"
  na_scaling_keys :: "vec3 key list"

record ai_animation =
  an_name :: string
  an_duration :: f64
  an_ticks_per_second :: f64
  an_channels :: "ai_node_anim list"

record anim_evaluator =
  ev_name :: string
  channels :: "channel list"
  play_forward :: "bool option"
  last_time :: f32
  ticks_per_second :: f32
  duration :: f32
  last_positions :: "cursor list"
  transforms :: "mat4 list list"

subsection \<open>Construction\<close>

text \<open>\<open>cAnimEvaluator()\<close>: the default constructor, used by \<open>Load\<close>.\<close>

definition default_evaluator :: anim_evaluator where
  "default_evaluator =
     \<lparr>ev_name = [], channels = [], play_forward = Some True, last_time = 0,
      ticks_per_second = 0, duration = 0, last_positions = [], transforms = []\<rparr>"

definition make_channel :: "ai_node_anim \<Rightarrow> channel" where
  "make_channel na =
     \<lparr>ch_name = na_node_name na, position_keys = na_position_keys na,
      rotation_keys = na_rotation_keys na, scaling_keys = na_scaling_keys na\<rparr>"

text \<open>\<open>cAnimEvaluator(const aiAnimation*)\<close>: a zero tick rate becomes 100.\<close>

definition make_evaluator :: "ai_animation \<Rightarrow> anim_evaluator" where
  "make_evaluator a =
     \<lparr>ev_name = an_name a, channels = map make_channel (an_channels a),
      play_forward = None, last_time = 0,
      ticks_per_second = (if an_ticks_per_second a \<noteq> 0 then an_ticks_per_second a else 100),
      duration = an_duration a,
      last_positions = replicate (length (an_channels a)) (0, 0, 0), transforms = []\<rparr>"

subsection \<open>Evaluation\<close>

text \<open>\<open>pTime *= TicksPerSecond; time = 0; if (Duration > 0) time = fmod(pTime, Duration)\<close>.\<close>

definition wrap_time :: "f32 \<Rightarrow> f32 \<Rightarrow> f32 \<Rightarrow> f32" where
  "wrap_time tps dur p = (if 0 < dur then fmod (p * tps) dur else 0)"

text \<open>One iteration of the loop over the channels: a channel whose bone is not in the map
  is skipped; otherwise its cursor is replaced and its local matrix written.\<close>

definition eval_step ::
  "f32 \<Rightarrow> f32 \<Rightarrow> f32 \<Rightarrow> (string \<rightharpoonup> 'b) \<Rightarrow> channel list \<Rightarrow>
   cursor list \<times> ('b \<times> mat4) list \<Rightarrow> nat \<Rightarrow> cursor list \<times> ('b \<times> mat4) list" where
  "eval_step dur t prev bones chs acc a =
     (case bones (ch_name (chs ! a)) of
        None \<Rightarrow> acc
      | Some b \<Rightarrow>
          (let (c', m) = eval_channel dur t prev (chs ! a) (fst acc ! a)
           in ((fst acc)[a := c'], snd acc @ [(b, m)])))"

definition evaluate :: "f32 \<Rightarrow> (string \<rightharpoonup> 'b) \<Rightarrow> anim_evaluator \<Rightarrow> anim_evaluator \<times> ('b \<times> mat4) list" where
  "evaluate p bones ev =
     (let t = wrap_time (ticks_per_second ev) (duration ev) p;
          (lp, ws) = foldl (eval_step (duration ev) t (last_time ev) bones (channels ev))
                       (last_positions ev, []) [0..<length (channels ev)]
      in (ev\<lparr>last_positions := lp, last_time := t\<rparr>, ws))"

subsection \<open>Frame lookup\<close>

text \<open>
  \<open>GetFrameIndexAt(ptime)\<close>: the wrapped time as a fraction of the duration, inverted for
  backward playback, times the number of baked frames, converted to \<open>unsigned int\<close>. A
  zero duration makes the fraction \<open>0/0\<close>, a NaN, whose conversion is undefined.
\<close>

definition get_frame_index_at :: "anim_evaluator \<Rightarrow> f32 \<Rightarrow> nat option" where
  "get_frame_index_at ev p =
     (let time = wrap_time (ticks_per_second ev) (duration ev) p
      in if duration ev = 0 then None
         else (case play_forward ev of
                 None \<Rightarrow> None
               | Some fwd \<Rightarrow>
                   (let pc = time / duration ev;
                        pc' = (if fwd then pc else (pc - 1) * -1)
                    in float_to_uint (of_nat (length (transforms ev)) * pc'))))"

text \<open>\<open>GetTransforms(dt)\<close>: \<open>Transforms[GetFrameIndexAt(dt)]\<close>, an out-of-range index
  being undefined behaviour.\<close>

definition get_transforms :: "anim_evaluator \<Rightarrow> f32 \<Rightarrow> mat4 list option" where
  "get_transforms ev p =
     (case get_frame_index_at ev p of
        None \<Rightarrow> None
      | Some i \<Rightarrow> if i < length (transforms ev) then Some (transforms ev ! i) else None)"

subsection \<open>The reference and the invariant\<close>

text \<open>The writes of a stateless evaluation: every channel whose bone is known, in order,
  with the pose found from the reference key indices.\<close>

definition pose_ref :: "f32 \<Rightarrow> (string \<rightharpoonup> 'b) \<Rightarrow> anim_evaluator \<Rightarrow> ('b \<times> mat4) list" where
  "pose_ref p bones ev =
     (let t = wrap_time (ticks_per_second ev) (duration ev) p
      in concat (map (\<lambda>ch. case bones (ch_name ch) of
                              None \<Rightarrow> []
                            | Some b \<Rightarrow> [(b, channel_pose (duration ev) t ch)])
                     (channels ev)))"

definition ev_inv :: "(string \<rightharpoonup> 'b) \<Rightarrow> anim_evaluator \<Rightarrow> bool" where
  "ev_inv bones ev \<longleftrightarrow>
     length (last_positions ev) = length (channels ev) \<and>
     (\<forall>a < length (channels ev).
        channel_cursor_ok (channels ev ! a) (last_time ev) (last_positions ev ! a) \<and>
        (bones (ch_name (channels ev ! a)) = None \<longrightarrow> last_positions ev ! a = (0, 0, 0)))"

definition ev_sorted :: "anim_evaluator \<Rightarrow> bool" where
  "ev_sorted ev \<longleftrightarrow> (\<forall>ch \<in> set (channels ev). channel_sorted ch)"

fun eval_run :: "f32 list \<Rightarrow> (string \<rightharpoonup> 'b) \<Rightarrow> anim_evaluator \<Rightarrow> ('b \<times> mat4) list list" where
  "eval_run [] bones ev = []"
| "eval_run (p # ps) bones ev =
     (let (ev', ws) = evaluate p bones ev in ws # eval_run ps bones ev')"

text \<open>The evaluators a scene animator can hold between two calls: one built from an
  \<open>aiAnimation\<close>, then evaluated any number of times against the same bone map.\<close>

inductive reachable_ev :: "(string \<rightharpoonup> 'b) \<Rightarrow> anim_evaluator \<Rightarrow> bool" for bones where
  construct: "reachable_ev bones (make_evaluator a)"
| evaluate: "reachable_ev bones ev \<Longrightarrow> reachable_ev bones (fst (evaluate p bones ev))"

subsection \<open>Properties\<close>

lemma eval_step_None:
  "bones (ch_name (chs ! a)) = None \<Longrightarrow> eval_step dur t prev bones chs acc a = acc"
  by (simp add: eval_step_def)

lemma eval_step_Some:
  "bones (ch_name (chs ! a)) = Some b \<Longrightarrow> eval_step dur t prev bones chs acc a =
     ((fst acc)[a := fst (eval_channel dur t prev (chs ! a) (fst acc ! a))],
      snd acc @ [(b, snd (eval_channel dur t prev (chs ! a) (fst acc ! a)))])"
  by (simp add: eval_step_def split_def Let_def)

lemma eval_loop:
  assumes "n \<le> length chs" "length lp0 = length chs"
  shows "length (fst (foldl (eval_step dur t prev bones chs) (lp0, ws0) [0..<n])) = length chs \<and>
    (\<forall>a < length chs. fst (foldl (eval_step dur t prev bones chs) (lp0, ws0) [0..<n]) ! a =
       (if a < n \<and> bones (ch_name (chs ! a)) \<noteq> None
        then fst (eval_channel dur t prev (chs ! a) (lp0 ! a)) else lp0 ! a)) \<and>
    snd (foldl (eval_step dur t prev bones chs) (lp0, ws0) [0..<n]) =
      ws0 @ concat (map (\<lambda>a. case bones (ch_name (chs ! a)) of
                               None \<Rightarrow> []
                             | Some b \<Rightarrow> [(b, snd (eval_channel dur t prev (chs ! a) (lp0 ! a)))])
                        [0..<n])"
  using assms(1)
proof (induction n)
  case 0
  with assms(2) show ?case
    by simp
next
  case (Suc n)
  let ?R = "foldl (eval_step dur t prev bones chs) (lp0, ws0) [0..<n]"
  from Suc have n: "n < length chs"
    by simp
  from Suc have IH: "length (fst ?R) = length chs"
    "\<And>a. a < length chs \<Longrightarrow> fst ?R ! a = (if a < n \<and> bones (ch_name (chs ! a)) \<noteq> None
        then fst (eval_channel dur t prev (chs ! a) (lp0 ! a)) else lp0 ! a)"
    "snd ?R = ws0 @ concat (map (\<lambda>a. case bones (ch_name (chs ! a)) of
                               None \<Rightarrow> []
                             | Some b \<Rightarrow> [(b, snd (eval_channel dur t prev (chs ! a) (lp0 ! a)))])
                        [0..<n])"
    by simp_all
  have unfold: "foldl (eval_step dur t prev bones chs) (lp0, ws0) [0..<Suc n] =
      eval_step dur t prev bones chs ?R n"
    by simp
  show ?case
  proof (cases "bones (ch_name (chs ! n))")
    case None
    then have "foldl (eval_step dur t prev bones chs) (lp0, ws0) [0..<Suc n] = ?R"
      by (simp only: unfold eval_step_None)
    with IH None show ?thesis
      by (auto simp: less_Suc_eq)
  next
    case (Some b)
    have cur: "fst ?R ! n = lp0 ! n"
      using IH(2) [OF n] by simp
    with Some have "foldl (eval_step dur t prev bones chs) (lp0, ws0) [0..<Suc n] =
        ((fst ?R)[n := fst (eval_channel dur t prev (chs ! n) (lp0 ! n))],
         snd ?R @ [(b, snd (eval_channel dur t prev (chs ! n) (lp0 ! n)))])"
      by (simp only: unfold eval_step_Some)
    with IH Some n show ?thesis
      by (auto simp: nth_list_update less_Suc_eq)
  qed
qed

lemma evaluate_eq:
  "evaluate p bones ev =
     (let t = wrap_time (ticks_per_second ev) (duration ev) p;
          r = foldl (eval_step (duration ev) t (last_time ev) bones (channels ev))
                (last_positions ev, []) [0..<length (channels ev)]
      in (ev\<lparr>last_positions := fst r, last_time := t\<rparr>, snd r))"
  unfolding evaluate_def Let_def by (simp only: case_prod_beta)
lemma evaluate_fields [simp]:
  "channels (fst (evaluate p bones ev)) = channels ev"
  "ticks_per_second (fst (evaluate p bones ev)) = ticks_per_second ev"
  "duration (fst (evaluate p bones ev)) = duration ev"
  "transforms (fst (evaluate p bones ev)) = transforms ev"
  "play_forward (fst (evaluate p bones ev)) = play_forward ev"
  "last_time (fst (evaluate p bones ev)) = wrap_time (ticks_per_second ev) (duration ev) p"
  by (simp_all add: evaluate_eq Let_def)

lemma concat_map_nth:
  "concat (map (\<lambda>a. f (xs ! a)) [0..<length xs]) = concat (map f xs)"
proof -
  have "map (\<lambda>a. f (xs ! a)) [0..<length xs] = map f (map ((!) xs) [0..<length xs])"
    by (simp only: map_map comp_def)
  also have "\<dots> = map f xs"
    by (simp only: map_nth)
  finally show ?thesis
    by (rule arg_cong)
qed

lemma evaluate_pose_ref:
  assumes "ev_inv bones ev" "ev_sorted ev"
  shows "snd (evaluate p bones ev) = pose_ref p bones ev"
proof -
  let ?t = "wrap_time (ticks_per_second ev) (duration ev) p"
  let ?chs = "channels ev"
  have len: "length (last_positions ev) = length ?chs"
    using assms(1) by (simp add: ev_inv_def)
  have pose: "\<And>a. a < length ?chs \<Longrightarrow>
      snd (eval_channel (duration ev) ?t (last_time ev) (?chs ! a) (last_positions ev ! a)) =
      channel_pose (duration ev) ?t (?chs ! a)"
    using assms by (intro eval_channel_pose) (auto simp: ev_inv_def ev_sorted_def)
  have "snd (evaluate p bones ev) =
      concat (map (\<lambda>a. case bones (ch_name (?chs ! a)) of
                         None \<Rightarrow> []
                       | Some b \<Rightarrow> [(b, snd (eval_channel (duration ev) ?t (last_time ev)
                                                (?chs ! a) (last_positions ev ! a)))])
                  [0..<length ?chs])"
    using eval_loop [OF order_refl len, of "duration ev" ?t "last_time ev" bones "[]"]
    by (simp add: evaluate_eq Let_def)
  also have "\<dots> = concat (map (\<lambda>a. case bones (ch_name (?chs ! a)) of
                         None \<Rightarrow> []
                       | Some b \<Rightarrow> [(b, channel_pose (duration ev) ?t (?chs ! a))])
                  [0..<length ?chs])"
    by (intro arg_cong [where f = concat] map_cong refl) (simp add: pose split: option.split)
  also have "\<dots> = pose_ref p bones ev"
    by (simp add: pose_ref_def concat_map_nth [where f = "\<lambda>ch. case bones (ch_name ch) of
        None \<Rightarrow> [] | Some b \<Rightarrow> [(b, channel_pose (duration ev) ?t ch)]"])
  finally show ?thesis .
qed

lemma evaluate_inv:
  assumes "ev_inv bones ev"
  shows "ev_inv bones (fst (evaluate p bones ev))"
proof -
  let ?t = "wrap_time (ticks_per_second ev) (duration ev) p"
  let ?chs = "channels ev"
  have len: "length (last_positions ev) = length ?chs"
    using assms by (simp add: ev_inv_def)
  note loop = eval_loop [OF order_refl len, of "duration ev" ?t "last_time ev" bones "[]"]
  have lp: "last_positions (fst (evaluate p bones ev)) =
      fst (foldl (eval_step (duration ev) ?t (last_time ev) bones ?chs) (last_positions ev, [])
             [0..<length ?chs])"
    by (simp add: evaluate_eq Let_def)
  show ?thesis
    unfolding ev_inv_def
  proof (intro conjI allI impI)
    show "length (last_positions (fst (evaluate p bones ev))) = length (channels (fst (evaluate p bones ev)))"
      using loop by (simp add: lp)
  next
    fix a
    assume a: "a < length (channels (fst (evaluate p bones ev)))"
    then have a': "a < length ?chs" by simp
    have old: "channel_cursor_ok (?chs ! a) (last_time ev) (last_positions ev ! a)"
      "bones (ch_name (?chs ! a)) = None \<Longrightarrow> last_positions ev ! a = (0, 0, 0)"
      using assms a' by (auto simp: ev_inv_def)
    have new: "last_positions (fst (evaluate p bones ev)) ! a =
        (if bones (ch_name (?chs ! a)) \<noteq> None
         then fst (eval_channel (duration ev) ?t (last_time ev) (?chs ! a) (last_positions ev ! a))
         else last_positions ev ! a)"
      using loop a' by (simp add: lp)
    show "channel_cursor_ok (channels (fst (evaluate p bones ev)) ! a)
        (last_time (fst (evaluate p bones ev))) (last_positions (fst (evaluate p bones ev)) ! a)"
      using old by (auto simp: new eval_channel_ok cursor_ok_def)
    show "bones (ch_name (channels (fst (evaluate p bones ev)) ! a)) = None \<Longrightarrow>
        last_positions (fst (evaluate p bones ev)) ! a = (0, 0, 0)"
      using old by (simp add: new)
  qed
qed

lemma evaluate_targets:
  assumes "ev_inv bones ev" "w \<in> set (snd (evaluate p bones ev))"
  shows "fst w \<in> ran bones"
proof -
  from assms(1) have len: "length (last_positions ev) = length (channels ev)"
    by (simp add: ev_inv_def)
  from eval_loop [OF le_refl len, of "duration ev" "wrap_time (ticks_per_second ev) (duration ev) p"
      "last_time ev" bones "[]"] assms(2)
  show ?thesis
    by (auto simp: evaluate_eq Let_def ranI split: option.splits)
qed

lemma make_evaluator_inv: "ev_inv bones (make_evaluator a)"
  by (simp add: ev_inv_def make_evaluator_def cursor_ok_def)

lemma pose_ref_evaluate [simp]: "pose_ref q bones (fst (evaluate p bones ev)) = pose_ref q bones ev"
  by (simp add: pose_ref_def cong: option.case_cong)

lemma ev_sorted_evaluate [simp]: "ev_sorted (fst (evaluate p bones ev)) = ev_sorted ev"
  by (simp add: ev_sorted_def)

lemma map_filter_concat:
  "List.map_filter f xs = concat (map (\<lambda>x. case f x of None \<Rightarrow> [] | Some b \<Rightarrow> [b]) xs)"
  by (induction xs) (simp_all add: map_filter_simps split: option.splits)

text \<open>C1: for sorted key tracks and valid cursors, evaluating any sequence of times with
  the cursor-based seek yields, call by call, the writes of the stateless reference
  evaluation: the seek optimisation does not change the poses.\<close>

theorem eval_run_pose_ref:
  "ev_inv bones ev \<Longrightarrow> ev_sorted ev \<Longrightarrow> eval_run ps bones ev = map (\<lambda>p. pose_ref p bones ev) ps"
proof (induction ps arbitrary: ev)
  case Nil
  then show ?case by simp
next
  case (Cons p ps)
  have "eval_run ps bones (fst (evaluate p bones ev)) =
      map (\<lambda>q. pose_ref q bones (fst (evaluate p bones ev))) ps"
    using Cons by (simp add: evaluate_inv)
  with Cons.prems show ?case
    by (simp add: split_def evaluate_pose_ref)
qed

lemma wrap_time_period:
  assumes "0 < tps" "0 < dur" "0 \<le> p"
  shows "wrap_time tps dur (p + dur / tps) = wrap_time tps dur p"
proof -
  have "(p + dur / tps) * tps = p * tps + dur"
    using assms(1) by (simp add: algebra_simps)
  moreover have "0 \<le> p * tps"
    using assms by simp
  ultimately show ?thesis
    using assms by (simp add: wrap_time_def fmod_add_period)
qed

text \<open>C9: for a positive tick rate and duration, evaluating one period of the animation
  later gives the same pose and the same new state: playback loops.\<close>

theorem evaluate_loops:
  assumes "0 < ticks_per_second ev" "0 < duration ev" "0 \<le> p"
  shows "evaluate (p + duration ev / ticks_per_second ev) bones ev = evaluate p bones ev"
  using assms by (simp add: evaluate_eq wrap_time_period)

lemma wrap_time_bounds:
  "0 < dur \<Longrightarrow> 0 \<le> p * tps \<Longrightarrow> 0 \<le> wrap_time tps dur p \<and> wrap_time tps dur p < dur"
  by (simp add: wrap_time_def fmod_nonneg_bounds)

text \<open>C5: for forward playback, a positive duration, a non-negative scaled time and a
  non-empty frame cache, \<open>GetFrameIndexAt\<close> returns an index inside the cache.\<close>

theorem get_frame_index_forward_in_range:
  assumes fwd: "play_forward ev = Some True" and dur: "0 < duration ev"
    and t: "0 \<le> p * ticks_per_second ev"
    and n: "length (transforms ev) \<le> 2 ^ 32" "transforms ev \<noteq> []"
  shows "\<exists>i. get_frame_index_at ev p = Some i \<and> i < length (transforms ev)"
proof -
  let ?w = "wrap_time (ticks_per_second ev) (duration ev) p"
  let ?n = "real (length (transforms ev))"
  have w: "0 \<le> ?w" "?w < duration ev"
    using wrap_time_bounds [OF dur t] by simp_all
  then have pc: "0 \<le> ?w / duration ev" "?w / duration ev < 1"
    using dur by simp_all
  have npos: "0 < ?n"
    using n(2) by simp
  have lo: "0 \<le> ?n * (?w / duration ev)"
    using pc(1) by (intro mult_nonneg_nonneg) simp_all
  have hi: "?n * (?w / duration ev) < ?n"
    using mult_strict_left_mono [OF pc(2) npos] by simp
  have "?n \<le> 2 ^ 32"
    using n(1) by (metis of_nat_le_iff of_nat_numeral of_nat_power)
  with hi have "?n * (?w / duration ev) < 2 ^ 32"
    by linarith
  with lo hi fwd dur show ?thesis
    by (simp add: get_frame_index_at_def Let_def float_to_uint_nonneg nat_floor_less_of_nat)
qed

text \<open>C6: for backward playback, at time 0 (and every multiple of the period)
  \<open>GetFrameIndexAt\<close> returns the number of frames, so \<open>GetTransforms\<close> indexes one
  past the end of the cache.\<close>

theorem get_transforms_backward_at_zero:
  assumes "play_forward ev = Some False" "0 < duration ev" "length (transforms ev) < 2 ^ 32"
  shows "get_frame_index_at ev 0 = Some (length (transforms ev)) \<and> get_transforms ev 0 = None"
proof -
  have "real (length (transforms ev)) < 2 ^ 32"
    using assms(3) by (metis of_nat_less_iff of_nat_numeral of_nat_power)
  then have "get_frame_index_at ev 0 = Some (length (transforms ev))"
    using assms(1,2) by (simp add: get_frame_index_at_def wrap_time_def fmod_def float_to_uint_def)
  then show ?thesis
    by (simp add: get_transforms_def)
qed

text \<open>C7: a negative scaled time wraps to a negative fraction, and with two or more
  frames its conversion to \<open>unsigned int\<close> is undefined.\<close>

theorem get_frame_index_negative_undefined:
  assumes "play_forward ev = Some True" "0 < duration ev" "2 \<le> length (transforms ev)"
    and "p * ticks_per_second ev = - duration ev / 2"
  shows "get_frame_index_at ev p = None"
proof -
  have "fmod (- duration ev / 2) (duration ev) = - duration ev / 2"
    using assms(2) by (simp add: fmod_def trunc_real_def ceiling_eq_iff)
  moreover have "real (length (transforms ev)) * (- 1 / 2) \<le> -1"
    using assms(3) by simp
  ultimately show ?thesis
    using assms by (simp add: get_frame_index_at_def wrap_time_def float_to_uint_def)
qed

text \<open>C2: every evaluator reachable from construction by evaluations against one bone
  map has one cursor triple per channel, every cursor valid for its last time, and untouched
  cursors for channels whose bone is unknown.\<close>

theorem reachable_ev_inv: "reachable_ev bones ev \<Longrightarrow> ev_inv bones ev"
proof (induction rule: reachable_ev.induct)
  case (construct a)
  show ?case by (rule make_evaluator_inv)
next
  case (evaluate ev p)
  from evaluate.IH show ?case by (rule evaluate_inv)
qed

text \<open>C8: an evaluator built from an \<open>aiAnimation\<close> has an uninitialised playback
  direction, so \<open>GetFrameIndexAt\<close> on it is undefined.\<close>

theorem make_evaluator_frame_undefined: "get_frame_index_at (make_evaluator a) p = None"
  by (simp add: get_frame_index_at_def make_evaluator_def Let_def)

text \<open>C12: one \<open>Evaluate\<close> call skips every channel whose node is not in the bone map
  and writes the others in channel order: the written bones are the map's entries for the
  channels' names, in order; the wrapped time becomes \<open>mLastTime\<close>; a skipped channel keeps
  its cursor and every other channel's cursor is the one its key search returns.\<close>

theorem evaluate_skips_unknown:
  assumes len: "length (last_positions ev) = length (channels ev)"
  shows "map fst (snd (evaluate p bones ev)) = List.map_filter (\<lambda>ch. bones (ch_name ch)) (channels ev) \<and>
         last_time (fst (evaluate p bones ev)) = wrap_time (ticks_per_second ev) (duration ev) p \<and>
         length (last_positions (fst (evaluate p bones ev))) = length (channels ev) \<and>
         (\<forall>a < length (channels ev). last_positions (fst (evaluate p bones ev)) ! a =
            (if bones (ch_name (channels ev ! a)) = None then last_positions ev ! a
             else fst (eval_channel (duration ev) (wrap_time (ticks_per_second ev) (duration ev) p)
                        (last_time ev) (channels ev ! a) (last_positions ev ! a))))"
proof -
  let ?t = "wrap_time (ticks_per_second ev) (duration ev) p"
  let ?R = "foldl (eval_step (duration ev) ?t (last_time ev) bones (channels ev))
              (last_positions ev, []) [0..<length (channels ev)]"
  note L = eval_loop [OF le_refl len, of "duration ev" ?t "last_time ev" bones "[]"]
  have ev: "evaluate p bones ev = (ev\<lparr>last_positions := fst ?R, last_time := ?t\<rparr>, snd ?R)"
    by (simp add: evaluate_eq Let_def)
  have "map fst (snd ?R) = concat (map (\<lambda>a. case bones (ch_name (channels ev ! a)) of
      None \<Rightarrow> [] | Some b \<Rightarrow> [b]) [0..<length (channels ev)])"
    using L by (simp add: map_concat comp_def option.case_distrib [of "map fst"] cong: option.case_cong)
  also have "\<dots> = List.map_filter (\<lambda>ch. bones (ch_name ch)) (channels ev)"
    by (simp only: concat_map_nth [of "\<lambda>ch. case bones (ch_name ch) of None \<Rightarrow> [] | Some b \<Rightarrow> [b]"]
        map_filter_concat)
  finally show ?thesis
    using L by (simp add: ev)
qed

end
