(* ===== verification/Skeleton.thy ===== *)
theory Skeleton
  imports Math
begin

text \<open>
  The bone hierarchy of \<open>SceneAnimator\<close> (cAnimationController.h/.cpp): \<open>cBone\<close>,
  \<open>CreateBoneTree\<close>, \<open>UpdateTransforms\<close> and \<open>CalculateBoneToWorldTransform\<close>.
  The C++ bones are heap objects linked by raw \<open>Parent\<close> and \<open>Children\<close> pointers; the
  model keeps them in an arena \<open>heap\<close> (a map from addresses to bones), a pointer being an
  address, \<open>NULL\<close> being \<open>None\<close>. \<open>new cBone()\<close> takes the next unused address.
  The pointer-chasing loops are \<open>partial_function (option)\<close>: on a cyclic or dangling
  structure they do not return (\<open>None\<close>); on a well-formed tree they are proved to
  return.

  The lemmas show that the climb to the root terminates on a well-formed tree
  (\<open>tree_wf\<close>: a parent has a smaller address than its children and every child
  pointer is matched by the child's parent pointer), that \<open>CreateBoneTree\<close> builds such
  a tree with every global transform right (\<open>global_ok\<close>) and every name of
  \<open>BonesByName\<close> pointing to a bone of that name, that \<open>UpdateTransforms\<close>
  terminates and makes the globals of a subtree right without touching anything else, and
  that the loop's result satisfies the recursive contract
  \<open>global = local * global(parent)\<close>.
\<close>

subsection \<open>Bones and the arena\<close>

record bone =
  bone_name :: string
  offset :: mat4
  local_transform :: mat4
  global_transform :: mat4
  original_local :: mat4
  parent :: "nat option"
  children :: "nat list"

type_synonym heap = "nat \<rightharpoonup> bone"

datatype ai_node = AiNode (node_name: string) (node_transformation: aimat4) (node_children: "ai_node list")

record skeleton =
  heap :: heap
  next_id :: nat
  bones_by_name :: "string \<rightharpoonup> nat"

subsection \<open>Operations\<close>

text \<open>\<open>CalculateBoneToWorldTransform\<close>'s loop: \<open>GlobalTransform *= parent->LocalTransform;
  parent = parent->Parent\<close> until the parent is \<open>NULL\<close>.\<close>

partial_function (option) climb :: "heap \<Rightarrow> mat4 \<Rightarrow> nat option \<Rightarrow> mat4 option" where
  "climb h g p =
     (case p of
        None \<Rightarrow> Some g
      | Some i \<Rightarrow> (case h i of None \<Rightarrow> None | Some b \<Rightarrow> climb h (g * local_transform b) (parent b)))"

text \<open>\<open>CalculateBoneToWorldTransform(child)\<close>: \<open>GlobalTransform = LocalTransform\<close>, then the
  climb. The arena is updated only when the climb returns.\<close>

definition calc_global :: "heap \<Rightarrow> nat \<Rightarrow> heap option" where
  "calc_global h i =
     (case h i of
        None \<Rightarrow> None
      | Some b \<Rightarrow> map_option (\<lambda>g. h(i \<mapsto> b\<lparr>global_transform := g\<rparr>))
                   (climb h (local_transform b) (parent b)))"

text \<open>\<open>new cBone()\<close> with the name, parent and local transform \<open>CreateBoneTree\<close> sets
  (\<open>mat4\<close>'s default constructor is the identity).\<close>

definition new_bone :: "string \<Rightarrow> nat option \<Rightarrow> mat4 \<Rightarrow> bone" where
  "new_bone nm par l =
     \<lparr>bone_name = nm, offset = 1, local_transform = l, global_transform = 1,
      original_local = l, parent = par, children = []\<rparr>"

text \<open>\<open>internalNode->Children.push_back(child)\<close>.\<close>

definition add_child :: "nat \<Rightarrow> nat \<Rightarrow> heap \<Rightarrow> heap option" where
  "add_child i c h = map_option (\<lambda>b. h(i \<mapsto> b\<lparr>children := children b @ [c]\<rparr>)) (h i)"

text \<open>
  \<open>CreateBoneTree(pNode, pParent)\<close>: allocate the bone, register it in \<open>BonesByName\<close>
  (a later bone of the same name overwrites the entry), set its local transform to the
  transposed node transformation and its copy \<open>OriginalLocalTransform\<close>, compute its global
  transform, then build the children in order, appending each to \<open>Children\<close>. The loop over
  the children is \<open>create_children\<close>.
\<close>

fun create_bone_tree :: "ai_node \<Rightarrow> nat option \<Rightarrow> skeleton \<Rightarrow> (nat \<times> skeleton) option"
and create_children :: "ai_node list \<Rightarrow> nat \<Rightarrow> skeleton \<Rightarrow> skeleton option" where
  "create_bone_tree (AiNode nm tr cs) par s =
     (let i = next_id s;
          l = mat4_transpose (transform_matrix tr);
          s1 = s\<lparr>heap := (heap s)(i \<mapsto> new_bone nm par l), next_id := Suc i,
                 bones_by_name := (bones_by_name s)(nm \<mapsto> i)\<rparr>
      in case calc_global (heap s1) i of
           None \<Rightarrow> None
         | Some h \<Rightarrow> map_option (Pair i) (create_children cs i (s1\<lparr>heap := h\<rparr>)))"
| "create_children [] i s = Some s"
| "create_children (c # cs) i s =
     (case create_bone_tree c (Some i) s of
        None \<Rightarrow> None
      | Some (j, s1) \<Rightarrow>
          (case add_child i j (heap s1) of
             None \<Rightarrow> None
           | Some h \<Rightarrow> create_children cs i (s1\<lparr>heap := h\<rparr>)))"

text \<open>\<open>UpdateTransforms(pNode)\<close>: recompute the node's global transform, then recurse into
  each child in order. \<open>update_list h ids\<close> runs it on each bone of \<open>ids\<close> in turn.\<close>

partial_function (option) update_list :: "heap \<Rightarrow> nat list \<Rightarrow> heap option" where
  "update_list h is =
     (case is of
        [] \<Rightarrow> Some h
      | i # rest \<Rightarrow>
          (case calc_global h i of
             None \<Rightarrow> None
           | Some h1 \<Rightarrow>
               (case h1 i of
                  None \<Rightarrow> None
                | Some b \<Rightarrow>
                    Option.bind (update_list h1 (children b)) (\<lambda>h2. update_list h2 rest))))"

definition update_transforms :: "heap \<Rightarrow> nat \<Rightarrow> heap option" where
  "update_transforms h i = update_list h [i]"


subsection \<open>Invariants\<close>

definition links :: "heap \<Rightarrow> nat \<Rightarrow> (mat4 \<times> nat option) option" where
  "links h i = map_option (\<lambda>b. (local_transform b, parent b)) (h i)"

definition global_ok :: "heap \<Rightarrow> nat \<Rightarrow> bool" where
  "global_ok h i \<longleftrightarrow>
     (\<forall>b. h i = Some b \<longrightarrow> climb h (local_transform b) (parent b) = Some (global_transform b))"

definition tree_wf :: "nat \<Rightarrow> heap \<Rightarrow> bool" where
  "tree_wf n h \<longleftrightarrow>
     (\<forall>i b. h i = Some b \<longrightarrow> i < n \<and>
        (\<forall>q. parent b = Some q \<longrightarrow> q < i \<and> h q \<noteq> None) \<and>
        (\<forall>c \<in> set (children b). i < c \<and> (\<exists>bc. h c = Some bc \<and> parent bc = Some i)))"

definition shape :: "heap \<Rightarrow> nat \<Rightarrow> (string \<times> mat4 \<times> mat4 \<times> mat4 \<times> nat option \<times> nat list) option" where
  "shape h i = map_option (\<lambda>b. (bone_name b, offset b, local_transform b, original_local b,
                                    parent b, children b)) (h i)"

text \<open>What a bone is apart from its transforms: name, offset, parent and children.\<close>

definition bones_frame :: "heap \<Rightarrow> nat \<Rightarrow> (string \<times> mat4 \<times> nat option \<times> nat list) option" where
  "bones_frame h i = map_option (\<lambda>b. (bone_name b, offset b, parent b, children b)) (h i)"

inductive_set subtree :: "heap \<Rightarrow> nat set \<Rightarrow> nat set" for h :: heap and S :: "nat set" where
  root: "i \<in> S \<Longrightarrow> i \<in> subtree h S"
| child: "j \<in> subtree h S \<Longrightarrow> h j = Some b \<Longrightarrow> c \<in> set (children b) \<Longrightarrow> c \<in> subtree h S"

definition extends :: "heap \<Rightarrow> heap \<Rightarrow> bool" where
  "extends h h' \<longleftrightarrow>
     (\<forall>j b. h j = Some b \<longrightarrow> (\<exists>b'. h' j = Some b' \<and> local_transform b' = local_transform b \<and>
        parent b' = parent b \<and> global_transform b' = global_transform b \<and> bone_name b' = bone_name b))"

definition names_ok :: "skeleton \<Rightarrow> bool" where
  "names_ok s \<longleftrightarrow>
     (\<forall>nm j. bones_by_name s nm = Some j \<longrightarrow> (\<exists>b. heap s j = Some b \<and> bone_name b = nm))"

definition skel_grows :: "skeleton \<Rightarrow> skeleton \<Rightarrow> bool" where
  "skel_grows s s' \<longleftrightarrow>
     tree_wf (next_id s') (heap s') \<and> (\<forall>j. global_ok (heap s') j) \<and> names_ok s' \<and>
     extends (heap s) (heap s') \<and> next_id s \<le> next_id s'"

definition empty_skeleton :: skeleton where
  "empty_skeleton = \<lparr>heap = Map.empty, next_id = 0, bones_by_name = Map.empty\<rparr>"



subsection \<open>Lemmas\<close>

lemma climb_None [simp]: "climb h g None = Some g"
  by (simp add: climb.simps)

lemma climb_Some: "h i = Some b \<Longrightarrow> climb h g (Some i) = climb h (g * local_transform b) (parent b)"
  by (simp add: climb.simps)

lemma climb_links:
  assumes "climb h g p = Some r" "links h' = links h"
  shows "climb h' g p = Some r"
proof -
  have "\<forall>h'. links h' = links h \<longrightarrow> climb h' g p = Some r"
  proof (rule climb.raw_induct [where P = "\<lambda>h g p r. \<forall>h'. links h' = links h \<longrightarrow> climb h' g p = Some r", OF _ assms(1)])
    fix f h g p r
    assume IH: "\<And>h g p r. f h g p = Some r \<Longrightarrow> \<forall>h'. links h' = links h \<longrightarrow> climb h' g p = Some r"
      and eq: "(case p of None \<Rightarrow> Some g
               | Some i \<Rightarrow> (case h i of None \<Rightarrow> None
                           | Some b \<Rightarrow> f h (g * local_transform b) (parent b))) = Some r"
    show "\<forall>h'. links h' = links h \<longrightarrow> climb h' g p = Some r"
    proof (intro allI impI)
      fix h'
      assume l: "links h' = links h"
      show "climb h' g p = Some r"
      proof (cases p)
        case None
        with eq show ?thesis by simp
      next
        case (Some i)
        with eq obtain b where b: "h i = Some b" and rec: "f h (g * local_transform b) (parent b) = Some r"
          by (auto split: option.splits)
        from l b obtain b' where b': "h' i = Some b'" "local_transform b' = local_transform b"
            "parent b' = parent b"
          by (cases "h' i") (auto simp: links_def dest!: fun_cong [where x = i])
        from IH [OF rec] l have "climb h' (g * local_transform b) (parent b) = Some r"
          by blast
        with Some b' show ?thesis
          by (simp add: climb_Some)
      qed
    qed
  qed
  with assms(2) show ?thesis
    by blast
qed

lemma climb_mult:
  assumes "climb h g p = Some r"
  shows "climb h (a * g) p = Some (a * r)"
proof (rule climb.raw_induct [where P = "\<lambda>h g p r. climb h (a * g) p = Some (a * r)", OF _ assms])
  fix f h g p r
  assume IH: "\<And>h g p r. f h g p = Some r \<Longrightarrow> climb h (a * g) p = Some (a * r)"
    and eq: "(case p of None \<Rightarrow> Some g
             | Some i \<Rightarrow> (case h i of None \<Rightarrow> None
                         | Some b \<Rightarrow> f h (g * local_transform b) (parent b))) = Some r"
  show "climb h (a * g) p = Some (a * r)"
  proof (cases p)
    case None
    with eq show ?thesis by simp
  next
    case (Some i)
    with eq obtain b where b: "h i = Some b" and rec: "f h (g * local_transform b) (parent b) = Some r"
      by (auto split: option.splits)
    from IH [OF rec] have "climb h (a * (g * local_transform b)) (parent b) = Some (a * r)" .
    with Some b show ?thesis
      by (simp add: climb_Some mult.assoc)
  qed
qed

lemma climb_terminates:
  assumes wf: "tree_wf n h"
  shows "h i \<noteq> None \<Longrightarrow> \<exists>r. climb h g (Some i) = Some r"
proof (induction i arbitrary: g rule: less_induct)
  case (less i)
  then obtain b where b: "h i = Some b"
    by auto
  show ?case
  proof (cases "parent b")
    case None
    with b show ?thesis
      by (simp add: climb_Some)
  next
    case (Some q)
    with wf b have "q < i" "h q \<noteq> None"
      by (auto simp: tree_wf_def)
    with less.IH obtain r where "climb h (g * local_transform b) (Some q) = Some r"
      by blast
    with b Some show ?thesis
      by (simp add: climb_Some)
  qed
qed

lemma shape_eqD:
  assumes "shape h' = shape h" "h i = Some b"
  shows "\<exists>b'. h' i = Some b' \<and> local_transform b' = local_transform b \<and> parent b' = parent b \<and>
           children b' = children b \<and> bone_name b' = bone_name b"
proof -
  have "shape h' i = shape h i"
    using assms(1) by simp
  with assms(2) show ?thesis
    by (cases "h' i") (simp_all add: shape_def)
qed

lemma shape_dom: "shape h' = shape h \<Longrightarrow> (h' i = None) = (h i = None)"
proof -
  assume "shape h' = shape h"
  then have "shape h' i = shape h i"
    by simp
  then show ?thesis
    by (cases "h i"; cases "h' i") (simp_all add: shape_def)
qed

lemma shape_links: "shape h' = shape h \<Longrightarrow> links h' = links h"
proof
  fix i
  assume s: "shape h' = shape h"
  show "links h' i = links h i"
  proof (cases "h i")
    case None
    with shape_dom [OF s] show ?thesis
      by (simp add: links_def)
  next
    case (Some b)
    with shape_eqD [OF s] show ?thesis
      by (auto simp: links_def)
  qed
qed

lemma frame_eqD:
  assumes "bones_frame h' = bones_frame h" "h i = Some b"
  shows "\<exists>b'. h' i = Some b' \<and> parent b' = parent b \<and> children b' = children b \<and>
           bone_name b' = bone_name b \<and> offset b' = offset b"
proof -
  have "bones_frame h' i = bones_frame h i"
    using assms(1) by simp
  with assms(2) show ?thesis
    by (cases "h' i") (simp_all add: bones_frame_def)
qed

lemma frame_dom: "bones_frame h' = bones_frame h \<Longrightarrow> (h' i = None) = (h i = None)"
proof -
  assume "bones_frame h' = bones_frame h"
  then have "bones_frame h' i = bones_frame h i"
    by simp
  then show ?thesis
    by (cases "h i"; cases "h' i") (simp_all add: bones_frame_def)
qed

lemma shape_frame: "shape h' = shape h \<Longrightarrow> bones_frame h' = bones_frame h"
proof
  fix i
  assume "shape h' = shape h"
  then have "shape h' i = shape h i"
    by simp
  then show "bones_frame h' i = bones_frame h i"
    by (cases "h i"; cases "h' i") (simp_all add: shape_def bones_frame_def)
qed

lemma tree_wf_frame_imp:
  assumes wf: "tree_wf n h" and s: "bones_frame h' = bones_frame h"
  shows "tree_wf n h'"
  unfolding tree_wf_def
proof (intro allI impI)
  fix i b'
  assume b': "h' i = Some b'"
  have s': "bones_frame h = bones_frame h'"
    using s by simp
  from frame_eqD [OF s' b'] obtain b where b: "h i = Some b"
    "parent b = parent b'" "children b = children b'"
    by blast
  from wf b(1) have w: "i < n" "\<forall>q. parent b = Some q \<longrightarrow> q < i \<and> h q \<noteq> None"
    "\<forall>c \<in> set (children b). i < c \<and> (\<exists>bc. h c = Some bc \<and> parent bc = Some i)"
    by (auto simp: tree_wf_def)
  have p: "\<forall>q. parent b' = Some q \<longrightarrow> q < i \<and> h' q \<noteq> None"
    using w(2) b(2) frame_dom [OF s] by auto
  have c: "\<forall>c \<in> set (children b'). i < c \<and> (\<exists>bc. h' c = Some bc \<and> parent bc = Some i)"
  proof
    fix c
    assume "c \<in> set (children b')"
    with w(3) b(3) obtain bc where "i < c" "h c = Some bc" "parent bc = Some i"
      by auto
    with frame_eqD [OF s] show "i < c \<and> (\<exists>bc. h' c = Some bc \<and> parent bc = Some i)"
      by force
  qed
  from w(1) p c show "i < n \<and> (\<forall>q. parent b' = Some q \<longrightarrow> q < i \<and> h' q \<noteq> None) \<and>
      (\<forall>c \<in> set (children b'). i < c \<and> (\<exists>bc. h' c = Some bc \<and> parent bc = Some i))"
    by blast
qed

lemma tree_wf_frame: "bones_frame h' = bones_frame h \<Longrightarrow> tree_wf n h' = tree_wf n h"
  by (metis tree_wf_frame_imp)

lemma tree_wf_shape: "shape h' = shape h \<Longrightarrow> tree_wf n h' = tree_wf n h"
  by (rule tree_wf_frame [OF shape_frame])

lemma calc_global_SomeD:
  assumes "calc_global h i = Some h'"
  obtains b g where "h i = Some b" "climb h (local_transform b) (parent b) = Some g"
    "h' = h(i \<mapsto> b\<lparr>global_transform := g\<rparr>)"
  using assms by (auto simp: calc_global_def split: option.splits)

lemma calc_global_shape: "calc_global h i = Some h' \<Longrightarrow> shape h' = shape h"
  by (erule calc_global_SomeD) (auto simp: shape_def)

lemma calc_global_terminates:
  assumes "tree_wf n h" "h i \<noteq> None"
  shows "\<exists>h'. calc_global h i = Some h'"
proof -
  from assms(2) obtain b where b: "h i = Some b"
    by auto
  from climb_terminates [OF assms] obtain r where "climb h 1 (Some i) = Some r"
    by blast
  with b have "climb h (local_transform b) (parent b) = Some r"
    by (simp add: climb_Some)
  with b show ?thesis
    by (simp add: calc_global_def)
qed

lemma global_ok_shape:
  assumes "global_ok h j" "shape h' = shape h" "\<And>b b'. h j = Some b \<Longrightarrow> h' j = Some b' \<Longrightarrow>
      global_transform b' = global_transform b"
  shows "global_ok h' j"
  unfolding global_ok_def
proof (intro allI impI)
  fix b'
  assume b': "h' j = Some b'"
  have s': "shape h = shape h'"
    using assms(2) by simp
  from shape_eqD [OF s' b'] obtain b where b: "h j = Some b" "local_transform b = local_transform b'"
    "parent b = parent b'"
    by blast
  with assms(1) have "climb h (local_transform b') (parent b') = Some (global_transform b)"
    by (simp add: global_ok_def)
  then have "climb h' (local_transform b') (parent b') = Some (global_transform b)"
    by (rule climb_links) (rule shape_links [OF assms(2)])
  with assms(3) [OF b(1) b'] show "climb h' (local_transform b') (parent b') = Some (global_transform b')"
    by simp
qed

lemma calc_global_ok: "calc_global h i = Some h' \<Longrightarrow> global_ok h' i"
proof (erule calc_global_SomeD)
  fix b g
  assume b: "h i = Some b" and c: "climb h (local_transform b) (parent b) = Some g"
    and h': "h' = h(i \<mapsto> b\<lparr>global_transform := g\<rparr>)"
  have "shape h' = shape h"
    using h' b by (auto simp: shape_def)
  with c have "climb h' (local_transform b) (parent b) = Some g"
    by (intro climb_links [OF c] shape_links)
  with h' show "global_ok h' i"
    by (simp add: global_ok_def)
qed

lemma calc_global_keeps_ok:
  assumes "calc_global h i = Some h'" "global_ok h j"
  shows "global_ok h' j"
proof (cases "j = i")
  case True
  with assms(1) show ?thesis
    by (simp add: calc_global_ok)

next
  case False
  from assms(1) have "shape h' = shape h"
    by (rule calc_global_shape)
  with assms(2) show ?thesis
    by (rule global_ok_shape) (use assms(1) False in \<open>auto elim: calc_global_SomeD\<close>)
qed

lemma subtree_frame_sub:
  assumes "bones_frame h' = bones_frame h"
  shows "j \<in> subtree h S \<Longrightarrow> j \<in> subtree h' S"
proof (induction rule: subtree.induct)
  case (root i)
  then show ?case by (rule subtree.root)
next
  case (child j b c)
  from frame_eqD [OF assms child.hyps(2)] obtain b' where "h' j = Some b'" "children b' = children b"
    by blast
  with child show ?case
    by (auto intro: subtree.child)
qed

lemma subtree_frame: "bones_frame h' = bones_frame h \<Longrightarrow> subtree h' S = subtree h S"
  by (metis subset_antisym subsetI subtree_frame_sub)

lemma subtree_shape: "shape h' = shape h \<Longrightarrow> subtree h' S = subtree h S"
  by (rule subtree_frame [OF shape_frame])

lemma subtree_insert:
  assumes b: "h i = Some b"
  shows "j \<in> subtree h (insert i S) \<Longrightarrow> j \<in> insert i (subtree h (set (children b)) \<union> subtree h S)"
proof (induction rule: subtree.induct)
  case (root k)
  then show ?case by (auto intro: subtree.root)

next
  case (child j b' c)
  show ?case
  proof (cases "j = i")
    case True
    with b child.hyps(2,3) show ?thesis
      by (auto intro: subtree.root)
  next
    case False
    with child.IH child.hyps(2,3) show ?thesis
      by (auto intro: subtree.child)
  qed
qed

lemma subtree_empty [simp]: "subtree h {} = {}"
proof -
  have "j \<in> subtree h {} \<Longrightarrow> False" for j
    by (induction rule: subtree.induct) auto
  then show ?thesis
    by blast
qed

lemma update_list_Nil [simp]: "update_list h [] = Some h"
  by (simp add: update_list.simps)

lemma update_list_Cons:
  "update_list h (i # rest) =
     (case calc_global h i of
        None \<Rightarrow> None
      | Some h1 \<Rightarrow> (case h1 i of None \<Rightarrow> None
                   | Some b \<Rightarrow> Option.bind (update_list h1 (children b)) (\<lambda>h2. update_list h2 rest)))"
  by (simp add: update_list.simps)

lemma update_list_spec_aux:
  assumes "n - m = k" "tree_wf n h" "\<forall>i \<in> set ids. h i \<noteq> None \<and> m \<le> i"
  shows "\<exists>h'. update_list h ids = Some h' \<and> shape h' = shape h \<and>
           (\<forall>j. global_ok h j \<longrightarrow> global_ok h' j) \<and> (\<forall>j \<in> subtree h (set ids). global_ok h' j)"
  using assms
proof (induction k arbitrary: m h ids rule: less_induct)
  case (less k)
  from less.prems(2,3) show ?case
  proof (induction ids arbitrary: h)
    case Nil
    show ?case
      by (simp add: update_list.simps)
  next
    case (Cons i rest)
    from Cons.prems(2) obtain b where b: "h i = Some b" and mi: "m \<le> i"
      by auto
    from Cons.prems(1) b have "i < n"
      by (auto simp: tree_wf_def)
    from calc_global_terminates [OF Cons.prems(1)] b obtain h1 where h1: "calc_global h i = Some h1"
      by blast
    have s1: "shape h1 = shape h"
      by (rule calc_global_shape [OF h1])
    have wf1: "tree_wf n h1"
      using Cons.prems(1) s1 tree_wf_shape by blast
    from shape_eqD [OF s1 b] obtain b1 where b1: "h1 i = Some b1" "children b1 = children b"
      by blast
    have ch: "\<forall>c \<in> set (children b1). h1 c \<noteq> None \<and> Suc i \<le> c"
      using wf1 b1(1) by (fastforce simp: tree_wf_def)
    have lt: "n - Suc i < k"
      using mi \<open>i < n\<close> less.prems(1) by simp
    from less.IH [OF lt refl wf1 ch] obtain h2 where h2: "update_list h1 (children b1) = Some h2"
      "shape h2 = shape h1" "\<forall>j. global_ok h1 j \<longrightarrow> global_ok h2 j"
      "\<forall>j \<in> subtree h1 (set (children b1)). global_ok h2 j"
      by blast
    have wf2: "tree_wf n h2"
      using wf1 h2(2) tree_wf_shape by blast
    have s2: "shape h2 = shape h"
      using h2(2) s1 by simp
    have r2: "\<forall>c \<in> set rest. h2 c \<noteq> None \<and> m \<le> c"
      using Cons.prems(2) shape_dom [OF s2] by auto
    from Cons.IH [OF wf2 r2] obtain h3 where h3: "update_list h2 rest = Some h3"
      "shape h3 = shape h2" "\<forall>j. global_ok h2 j \<longrightarrow> global_ok h3 j"
      "\<forall>j \<in> subtree h2 (set rest). global_ok h3 j"
      by blast
    have run: "update_list h (i # rest) = Some h3"
      by (simp add: update_list.simps [of h "i # rest"] h1 b1(1) h2(1) h3(1))
    have keep: "\<forall>j. global_ok h j \<longrightarrow> global_ok h3 j"
      using h2(3) h3(3) calc_global_keeps_ok [OF h1] by blast
    have sub: "\<forall>j \<in> subtree h (set (i # rest)). global_ok h3 j"
    proof
      fix j
      assume "j \<in> subtree h (set (i # rest))"
      then have "j \<in> insert i (subtree h (set (children b)) \<union> subtree h (set rest))"
        using subtree_insert [of h i b j "set rest", OF b] by simp
      moreover have "global_ok h3 i"
        using calc_global_ok [OF h1] h2(3) h3(3) by blast
      moreover have "\<forall>j \<in> subtree h (set (children b)). global_ok h3 j"
        using h2(4) h3(3) subtree_shape [OF s1] b1(2) by auto
      moreover have "\<forall>j \<in> subtree h (set rest). global_ok h3 j"
        using h3(4) subtree_shape [OF s2] by auto
      ultimately show "global_ok h3 j"
        by blast
    qed
    show ?case
      using run h3(2) s2 keep sub by auto
  qed
qed

lemma extends_refl [simp]: "extends h h"
  by (simp add: extends_def)

lemma extends_trans:
  assumes "extends h1 h2" "extends h2 h3"
  shows "extends h1 h3"
  unfolding extends_def
proof (intro allI impI)
  fix j b
  assume "h1 j = Some b"
  with assms(1) obtain b2 where b2: "h2 j = Some b2" "local_transform b2 = local_transform b"
    "parent b2 = parent b" "global_transform b2 = global_transform b" "bone_name b2 = bone_name b"
    unfolding extends_def by blast
  with assms(2) obtain b3 where "h3 j = Some b3" "local_transform b3 = local_transform b2"
    "parent b3 = parent b2" "global_transform b3 = global_transform b2" "bone_name b3 = bone_name b2"
    unfolding extends_def by blast
  with b2 show "\<exists>b'. h3 j = Some b' \<and> local_transform b' = local_transform b \<and> parent b' = parent b \<and>
      global_transform b' = global_transform b \<and> bone_name b' = bone_name b"
    by simp
qed

lemma climb_extends:
  assumes "climb h g p = Some r" "extends h h'"
  shows "climb h' g p = Some r"
proof -
  have "\<forall>h'. extends h h' \<longrightarrow> climb h' g p = Some r"
  proof (rule climb.raw_induct [where P = "\<lambda>h g p r. \<forall>h'. extends h h' \<longrightarrow> climb h' g p = Some r", OF _ assms(1)])
    fix f h g p r
    assume IH: "\<And>h g p r. f h g p = Some r \<Longrightarrow> \<forall>h'. extends h h' \<longrightarrow> climb h' g p = Some r"
      and eq: "(case p of None \<Rightarrow> Some g
               | Some i \<Rightarrow> (case h i of None \<Rightarrow> None
                           | Some b \<Rightarrow> f h (g * local_transform b) (parent b))) = Some r"
    show "\<forall>h'. extends h h' \<longrightarrow> climb h' g p = Some r"
    proof (intro allI impI)
      fix h'
      assume e: "extends h h'"
      show "climb h' g p = Some r"
      proof (cases p)
        case None
        with eq show ?thesis by simp
      next
        case (Some i)
        with eq obtain b where b: "h i = Some b" and rec: "f h (g * local_transform b) (parent b) = Some r"
          by (auto split: option.splits)
        from e b obtain b' where b': "h' i = Some b'" "local_transform b' = local_transform b"
            "parent b' = parent b"
          by (auto simp: extends_def)
        from IH [OF rec] e have "climb h' (g * local_transform b) (parent b) = Some r"
          by blast
        with Some b' show ?thesis
          by (simp add: climb_Some)
      qed
    qed
  qed
  with assms(2) show ?thesis
    by blast
qed

lemma global_ok_extends:
  assumes "global_ok h j" "extends h h'" "h j \<noteq> None"
  shows "global_ok h' j"
proof -
  from assms(3) obtain b where b: "h j = Some b"
    by auto
  with assms(2) obtain b' where b': "h' j = Some b'" "local_transform b' = local_transform b"
    "parent b' = parent b" "global_transform b' = global_transform b"
    by (auto simp: extends_def)
  from assms(1) b have "climb h (local_transform b) (parent b) = Some (global_transform b)"
    by (simp add: global_ok_def)
  then have "climb h' (local_transform b) (parent b) = Some (global_transform b)"
    using assms(2) by (rule climb_extends)
  with b' show ?thesis
    by (simp add: global_ok_def)
qed

lemma add_child_SomeD:
  assumes "add_child i c h = Some h'"
  obtains b where "h i = Some b" "h' = h(i \<mapsto> b\<lparr>children := children b @ [c]\<rparr>)"
  using assms by (auto simp: add_child_def)

lemma add_child_extends: "add_child i c h = Some h' \<Longrightarrow> extends h h'"
  by (erule add_child_SomeD) (auto simp: extends_def)

lemma add_child_same:
  assumes "add_child i c h = Some h'" "h d = Some bd"
  shows "\<exists>bd'. h' d = Some bd' \<and> parent bd' = parent bd \<and> (d \<noteq> i \<longrightarrow> bd' = bd)"
  using assms(1)
proof (rule add_child_SomeD)
  fix b
  assume "h i = Some b" "h' = h(i \<mapsto> b\<lparr>children := children b @ [c]\<rparr>)"
  with assms(2) show ?thesis
    by auto
qed

lemma add_child_dom:
  assumes "add_child i c h = Some h'"
  shows "(h' q = None) = (h q = None)"
  using assms
proof (rule add_child_SomeD)
  fix b
  assume "h i = Some b" "h' = h(i \<mapsto> b\<lparr>children := children b @ [c]\<rparr>)"
  then show ?thesis
    by auto
qed

lemma add_child_wf:
  assumes wf: "tree_wf n h" and a: "add_child i c h = Some h'"
    and c: "h c = Some bc" "parent bc = Some i" "i < c"
  shows "tree_wf n h'"
  using a
proof (rule add_child_SomeD)
  fix b
  assume b: "h i = Some b" and h': "h' = h(i \<mapsto> b\<lparr>children := children b @ [c]\<rparr>)"
  show "tree_wf n h'"
    unfolding tree_wf_def
  proof (intro allI impI)
    fix j b'
    assume j: "h' j = Some b'"
    obtain b0 where b0: "h j = Some b0" "parent b' = parent b0"
      "children b' = (if j = i then children b0 @ [c] else children b0)"
      using j h' b by (cases "j = i") auto
    from wf b0(1) have w: "j < n" "\<forall>q. parent b0 = Some q \<longrightarrow> q < j \<and> h q \<noteq> None"
      "\<forall>d \<in> set (children b0). j < d \<and> (\<exists>bd. h d = Some bd \<and> parent bd = Some j)"
      by (auto simp: tree_wf_def)
    have p: "\<forall>q. parent b' = Some q \<longrightarrow> q < j \<and> h' q \<noteq> None"
      using w(2) b0(2) add_child_dom [OF a] by auto
    have k: "\<forall>d \<in> set (children b'). j < d \<and> (\<exists>bd. h' d = Some bd \<and> parent bd = Some j)"
    proof
      fix d
      assume d: "d \<in> set (children b')"
      show "j < d \<and> (\<exists>bd. h' d = Some bd \<and> parent bd = Some j)"
      proof (cases "d \<in> set (children b0)")
        case True
        with w(3) obtain bd where "j < d" "h d = Some bd" "parent bd = Some j"
          by blast
        with add_child_same [OF a] show ?thesis
          by fastforce
      next
        case False
        with d b0(3) have "j = i" "d = c"
          by (auto split: if_splits)
        with c add_child_same [OF a c(1)] show ?thesis
          by auto
      qed
    qed
    from w(1) p k show "j < n \<and> (\<forall>q. parent b' = Some q \<longrightarrow> q < j \<and> h' q \<noteq> None) \<and>
        (\<forall>d \<in> set (children b'). j < d \<and> (\<exists>bd. h' d = Some bd \<and> parent bd = Some j))"
      by blast
  qed
qed

lemma global_ok_all_extends:
  assumes "\<forall>j. global_ok h j" "extends h h'" "\<forall>j. h' j \<noteq> None \<longrightarrow> h j = None \<longrightarrow> global_ok h' j"
  shows "\<forall>j. global_ok h' j"
proof
  fix j
  show "global_ok h' j"
  proof (cases "h j = None")
    case True
    with assms(3) show ?thesis
      by (cases "h' j") (auto simp: global_ok_def)
  next
    case False
    with assms(1,2) show ?thesis
      by (blast intro: global_ok_extends)
  qed
qed

lemma skel_grows_trans: "skel_grows s1 s2 \<Longrightarrow> skel_grows s2 s3 \<Longrightarrow> skel_grows s1 s3"
  by (auto simp: skel_grows_def intro: extends_trans)

lemma skel_grows_refl:
  "tree_wf (next_id s) (heap s) \<Longrightarrow> \<forall>j. global_ok (heap s) j \<Longrightarrow> names_ok s \<Longrightarrow> skel_grows s s"
  by (simp add: skel_grows_def)

lemma tree_wf_dom: "tree_wf n h \<Longrightarrow> h q \<noteq> None \<Longrightarrow> q < n"
  by (auto simp: tree_wf_def)

lemma tree_wf_fresh: "tree_wf n h \<Longrightarrow> h n = None"
  using tree_wf_dom by blast

lemma tree_wf_add_fresh:
  assumes wf: "tree_wf n h" and par: "\<forall>q. par = Some q \<longrightarrow> h q \<noteq> None"
  shows "tree_wf (Suc n) (h(n \<mapsto> new_bone nm par l))"
  unfolding tree_wf_def
proof (intro allI impI)
  fix j b
  assume j: "(h(n \<mapsto> new_bone nm par l)) j = Some b"
  show "j < Suc n \<and> (\<forall>q. parent b = Some q \<longrightarrow> q < j \<and> (h(n \<mapsto> new_bone nm par l)) q \<noteq> None) \<and>
      (\<forall>c \<in> set (children b). j < c \<and>
         (\<exists>bc. (h(n \<mapsto> new_bone nm par l)) c = Some bc \<and> parent bc = Some j))"
  proof (cases "j = n")
    case True
    with j have "b = new_bone nm par l"
      by simp
    moreover have "\<forall>q. par = Some q \<longrightarrow> q < n \<and> h q \<noteq> None"
      using par tree_wf_dom [OF wf] by blast
    ultimately show ?thesis
      using True by (auto simp: new_bone_def)
  next
    case False
    with j have hj: "h j = Some b"
      by simp
    with wf have "j < n" "\<forall>q. parent b = Some q \<longrightarrow> q < j \<and> h q \<noteq> None"
      "\<forall>c \<in> set (children b). j < c \<and> (\<exists>bc. h c = Some bc \<and> parent bc = Some j)"
      by (auto simp: tree_wf_def)
    moreover have "\<forall>c. h c \<noteq> None \<longrightarrow> c \<noteq> n"
      using tree_wf_fresh [OF wf] by auto
    ultimately show ?thesis
      by fastforce
  qed
qed

lemma extends_fresh: "h n = None \<Longrightarrow> extends h (h(n \<mapsto> b))"
  by (auto simp: extends_def)

lemma skel_grows_step:
  "extends (heap s) (heap s') \<Longrightarrow> next_id s \<le> next_id s' \<Longrightarrow> skel_grows s' s'' \<Longrightarrow> skel_grows s s''"
  by (auto simp: skel_grows_def intro: extends_trans)

lemma names_ok_extends:
  assumes "names_ok s" "extends (heap s) h"
  shows "names_ok (s\<lparr>heap := h\<rparr>)"
  unfolding names_ok_def
proof (intro allI impI)
  fix nm j
  assume "bones_by_name (s\<lparr>heap := h\<rparr>) nm = Some j"
  with assms(1) obtain b where "heap s j = Some b" "bone_name b = nm"
    by (auto simp: names_ok_def)
  with assms(2) show "\<exists>b. heap (s\<lparr>heap := h\<rparr>) j = Some b \<and> bone_name b = nm"
    by (fastforce simp: extends_def)
qed

lemma create_spec:
  "tree_wf (next_id s) (heap s) \<Longrightarrow> (\<forall>j. global_ok (heap s) j) \<Longrightarrow> names_ok s \<Longrightarrow>
   (\<forall>q. par = Some q \<longrightarrow> heap s q \<noteq> None) \<Longrightarrow>
   \<exists>s'. create_bone_tree nd par s = Some (next_id s, s') \<and> skel_grows s s' \<and>
        (\<exists>b. heap s' (next_id s) = Some b \<and> parent b = par)"
  and
  "tree_wf (next_id s) (heap s) \<Longrightarrow> (\<forall>j. global_ok (heap s) j) \<Longrightarrow> names_ok s \<Longrightarrow>
   heap s i \<noteq> None \<Longrightarrow> \<exists>s'. create_children cs i s = Some s' \<and> skel_grows s s'"
proof (induction nd par s and cs i s rule: create_bone_tree_create_children.induct)
  case (1 nm tr cs par s)
  let ?i = "next_id s"
  let ?l = "mat4_transpose (transform_matrix tr)"
  let ?b = "new_bone nm par ?l"
  let ?h1 = "(heap s)(?i \<mapsto> ?b)"
  let ?s1 = "s\<lparr>heap := ?h1, next_id := Suc ?i, bones_by_name := (bones_by_name s)(nm \<mapsto> ?i)\<rparr>"
  have fresh: "heap s ?i = None"
    by (rule tree_wf_fresh [OF "1.prems"(1)])
  have wf1: "tree_wf (Suc ?i) ?h1"
    by (rule tree_wf_add_fresh [OF "1.prems"(1,4)])
  have ext1: "extends (heap s) ?h1"
    using extends_fresh [of "heap s" ?i ?b] fresh by simp
  from calc_global_terminates [OF wf1, of ?i] obtain h2 where h2: "calc_global ?h1 ?i = Some h2"
    by auto
  obtain b0 g where b0: "?h1 ?i = Some b0" and "climb ?h1 (local_transform b0) (parent b0) = Some g"
    and h2b: "h2 = ?h1(?i \<mapsto> b0\<lparr>global_transform := g\<rparr>)"
    by (rule calc_global_SomeD [OF h2])
  from b0 h2b have h2eq: "h2 = ?h1(?i \<mapsto> ?b\<lparr>global_transform := g\<rparr>)"
    by simp
  let ?s2 = "?s1\<lparr>heap := h2\<rparr>"
  have wf2: "tree_wf (next_id ?s2) (heap ?s2)"
    using tree_wf_shape [OF calc_global_shape [OF h2]] wf1 by simp
  have ext2: "extends (heap s) h2"
    using h2eq fresh by (auto simp: extends_def)
  have ok1: "global_ok ?h1 j" if "j \<noteq> ?i" for j
  proof (cases "heap s j = None")
    case True
    with that show ?thesis
      by (simp add: global_ok_def)
  next
    case False
    with "1.prems"(2) ext1 show ?thesis
      by (blast intro: global_ok_extends)
  qed
  have ok2: "\<forall>j. global_ok (heap ?s2) j"
  proof
    fix j
    show "global_ok (heap ?s2) j"
    proof (cases "j = ?i")
      case True
      then show ?thesis
        using calc_global_ok [OF h2] by simp
    next
      case False
      then show ?thesis
        using calc_global_keeps_ok [OF h2 ok1 [OF False]] by simp
    qed
  qed
  have names2: "names_ok ?s2"
    unfolding names_ok_def
  proof (intro allI impI)
    fix nm' j
    assume a: "bones_by_name ?s2 nm' = Some j"
    show "\<exists>b. heap ?s2 j = Some b \<and> bone_name b = nm'"
    proof (cases "nm' = nm")
      case True
      with a h2eq show ?thesis
        by (simp add: new_bone_def)
    next
      case False
      with a "1.prems"(3) obtain b where "heap s j = Some b" "bone_name b = nm'"
        by (auto simp: names_ok_def)
      with ext2 show ?thesis
        by (fastforce simp: extends_def)
    qed
  qed
  have in2: "heap ?s2 ?i \<noteq> None"
    by (simp add: h2eq)
  from "1.IH" [OF refl refl refl _ wf2 ok2 names2 in2] h2
  obtain s3 where s3: "create_children cs ?i ?s2 = Some s3" "skel_grows ?s2 s3"
    by auto
  have grow: "skel_grows s s3"
    using ext2 s3(2) by (intro skel_grows_step [of s ?s2]) simp_all
  from s3(2) have e3: "extends h2 (heap s3)"
    by (simp add: skel_grows_def)
  have "h2 ?i = Some (?b\<lparr>global_transform := g\<rparr>)"
    by (simp add: h2eq)
  with e3 obtain b3 where "heap s3 ?i = Some b3" "parent b3 = par"
    unfolding extends_def by (fastforce simp: new_bone_def)
  moreover have "create_bone_tree (AiNode nm tr cs) par s = Some (?i, s3)"
    using h2 s3(1) by (simp add: Let_def)
  ultimately show ?case
    using grow by blast

next
  case (2 i s)
  then show ?case
    by (simp add: skel_grows_refl)

next
  case (3 c cs i s)
  let ?j = "next_id s"
  from "3.IH"(1) [OF "3.prems"(1,2,3)] "3.prems"(4) obtain s1 where
    c1: "create_bone_tree c (Some i) s = Some (?j, s1)" and g1: "skel_grows s s1"
    and bj: "\<exists>b. heap s1 ?j = Some b \<and> parent b = Some i"
    by auto
  from g1 have wf1: "tree_wf (next_id s1) (heap s1)" and ok1: "\<forall>j. global_ok (heap s1) j"
    and n1: "names_ok s1" and e1: "extends (heap s) (heap s1)" and le1: "next_id s \<le> next_id s1"
    by (simp_all add: skel_grows_def)
  from "3.prems"(4) e1 obtain bi where bi: "heap s1 i = Some bi"
    by (fastforce simp: extends_def)
  then obtain h where add: "add_child i ?j (heap s1) = Some h"
    by (simp add: add_child_def)
  have lt: "i < ?j"
    using tree_wf_dom [OF "3.prems"(1) "3.prems"(4)] .
  from bj obtain b where b: "heap s1 ?j = Some b" "parent b = Some i"
    by blast
  have wf2: "tree_wf (next_id (s1\<lparr>heap := h\<rparr>)) (heap (s1\<lparr>heap := h\<rparr>))"
    using add_child_wf [OF wf1 add b lt] by simp
  have e2: "extends (heap s1) h"
    by (rule add_child_extends [OF add])
  have "\<forall>j. global_ok h j"
  proof (rule global_ok_all_extends [OF ok1 e2])
    show "\<forall>j. h j \<noteq> None \<longrightarrow> heap s1 j = None \<longrightarrow> global_ok h j"
    proof (intro allI impI)
      fix j
      assume "h j \<noteq> None" "heap s1 j = None"
      with add_child_dom [OF add, of j] show "global_ok h j"
        by simp
    qed
  qed
  then have ok2: "\<forall>j. global_ok (heap (s1\<lparr>heap := h\<rparr>)) j"
    by simp
  have n2: "names_ok (s1\<lparr>heap := h\<rparr>)"
    by (rule names_ok_extends [OF n1 e2])
  have in2: "heap (s1\<lparr>heap := h\<rparr>) i \<noteq> None"
    using add_child_dom [OF add] bi by simp
  from "3.IH"(2) [OF c1 refl add wf2 ok2 n2 in2] obtain s2 where
    s2: "create_children cs i (s1\<lparr>heap := h\<rparr>) = Some s2" "skel_grows (s1\<lparr>heap := h\<rparr>) s2"
    by blast
  have "skel_grows s s2"
    using e1 e2 le1 s2(2) by (intro skel_grows_step [of s "s1\<lparr>heap := h\<rparr>"]) (auto intro: extends_trans)
  moreover have "create_children (c # cs) i s = Some s2"
    using c1 add s2(1) by simp
  ultimately show ?case
    by blast
qed

text \<open>C13: building the bone tree from an assimp node hierarchy into an empty skeleton
  (\<open>Skeleton = CreateBoneTree(pScene->mRootNode, NULL)\<close>) always finishes, returns
  the root as bone 0, and leaves a well-formed tree: parents before children, every child
  pointer matched by the child's parent pointer, every global transform equal to what
  \<open>CalculateBoneToWorldTransform\<close> computes, and every entry of \<open>BonesByName\<close>
  naming a bone of that name.\<close>

theorem create_bone_tree_builds_skeleton:
  "\<exists>s'. create_bone_tree nd None empty_skeleton = Some (0, s') \<and>
        tree_wf (next_id s') (heap s') \<and> (\<forall>j. global_ok (heap s') j) \<and> names_ok s'"
proof -
  have "tree_wf 0 Map.empty" "\<forall>j. global_ok Map.empty j" "names_ok empty_skeleton"
    by (simp_all add: tree_wf_def global_ok_def names_ok_def empty_skeleton_def)
  with create_spec(1) [of empty_skeleton None nd] show ?thesis
    by (auto simp: empty_skeleton_def skel_grows_def)
qed

text \<open>C14: \<open>UpdateTransforms\<close> on a bone of a well-formed tree terminates, changes no
  field but the global transforms, keeps every global transform that was already right,
  and makes the global transform of every bone below it (itself included) right.\<close>

theorem update_transforms_correct:
  assumes "tree_wf n h" "h i \<noteq> None"
  shows "\<exists>h'. update_transforms h i = Some h' \<and> shape h' = shape h \<and>
           (\<forall>j \<in> subtree h {i}. global_ok h' j) \<and> (\<forall>j. global_ok h j \<longrightarrow> global_ok h' j)"
  using update_list_spec_aux [of n 0 n h "[i]"] assms
  by (auto simp: update_transforms_def)

text \<open>C15: the global transforms that \<open>CalculateBoneToWorldTransform\<close>'s loop computes
  satisfy the recursive contract of a bone hierarchy: a root's global transform is its local
  transform, and a child's is its local transform times its parent's global transform
  (row vectors: the child's transform is applied first).\<close>

theorem global_ok_compose:
  assumes "global_ok h i" "global_ok h p" "h i = Some b" "h p = Some bp"
  shows "(parent b = None \<longrightarrow> global_transform b = local_transform b) \<and>
         (parent b = Some p \<longrightarrow> global_transform b = local_transform b * global_transform bp)"
proof (intro conjI impI)
  assume "parent b = None"
  with assms(1,3) show "global_transform b = local_transform b"
    by (simp add: global_ok_def)
next
  assume par: "parent b = Some p"
  from assms(2,4) have "climb h (local_transform bp) (parent bp) = Some (global_transform bp)"
    by (simp add: global_ok_def)
  then have "climb h (local_transform b * local_transform bp) (parent bp) =
             Some (local_transform b * global_transform bp)"
    by (rule climb_mult)
  with assms(1,3,4) par show "global_transform b = local_transform b * global_transform bp"
    by (simp add: global_ok_def climb_Some)
qed

end
