(* ===== verification/Animator.thy ===== *)
theory Animator
  imports Evaluator Skeleton
begin

text \<open>
  \<open>SceneAnimator\<close> (cAnimationController.h lines 52-112, cAnimationController.cpp lines
  238-243, 373-393 and 408-423): the animations, the current animation index, the bone tree
  (\<open>Skeleton\<close>, \<open>BonesByName\<close>), the skinned bones \<open>Bones\<close> with their index map
  \<open>BonesToIndex\<close>, the name-to-animation map \<open>AnimationNameToId\<close> and the scratch
  array \<open>Transforms\<close>.

  \<open>CurrentAnimIndex\<close> is an \<open>int32_t\<close>, a \<open>32 word\<close> read with \<open>sint\<close>. The code compares
  it with \<open>Animations.size()\<close>, a \<open>size_t\<close>: the usual arithmetic conversions turn the
  signed index into an unsigned 64-bit value (\<open>scast\<close> to \<open>64 word\<close>, the x64 build), so
  a negative index compares as a huge one. Bones live in the arena of the Skeleton theory;
  \<open>Bones\<close> and \<open>BonesByName\<close> hold addresses, and reading a freed or never allocated
  address is undefined behaviour, the value \<open>None\<close>.
\<close>

subsection \<open>The animator's state\<close>

record scene_animator =
  animations :: "anim_evaluator list"
  current_anim :: "32 word"
  skel :: skeleton
  root :: "nat option"
  bones_to_index :: "string \<rightharpoonup> nat"
  anim_name_to_id :: "string \<rightharpoonup> 32 word"
  bone_ptrs :: "nat list"
  sa_transforms :: "mat4 list"

text \<open>\<open>SceneAnimator(): Skeleton(0), CurrentAnimIndex(-1)\<close>, every container empty.\<close>

definition new_animator :: scene_animator where
  "new_animator =
     \<lparr>animations = [], current_anim = -1, skel = empty_skeleton, root = None,
      bones_to_index = Map.empty, anim_name_to_id = Map.empty, bone_ptrs = [], sa_transforms = []\<rparr>"

text \<open>An \<open>int32_t\<close> converted to \<open>size_t\<close>, as for \<open>Animations[i]\<close>, and the
  test \<open>i >= Animations.size()\<close>.\<close>

definition size_index :: "32 word \<Rightarrow> nat" where
  "size_index i = unat (scast i :: 64 word)"

definition index_out_of_range :: "32 word \<Rightarrow> anim_evaluator list \<Rightarrow> bool" where
  "index_out_of_range i anims \<longleftrightarrow> length anims \<le> size_index i"

subsection \<open>Release\<close>

text \<open>\<open>delete\<close> of a bone: \<open>~cBone\<close> deletes the children in order, then the bone's memory
  is freed. \<open>delete_list h ids\<close> deletes each bone of \<open>ids\<close> in turn; deleting a bone
  that is not allocated (a double free) is undefined.\<close>

partial_function (option) delete_list :: "heap \<Rightarrow> nat list \<Rightarrow> heap option" where
  "delete_list h ids =
     (case ids of
        [] \<Rightarrow> Some h
      | i # rest \<Rightarrow>
          (case h i of
             None \<Rightarrow> None
           | Some b \<Rightarrow> Option.bind (delete_list h (children b)) (\<lambda>h1. delete_list (h1(i := None)) rest)))"

text \<open>\<open>Release()\<close>: \<open>CurrentAnimIndex = -1; Animations.clear(); delete Skeleton;
  Skeleton = NULL\<close>. \<open>delete NULL\<close> does nothing. \<open>Bones\<close>, \<open>BonesByName\<close>,
  \<open>BonesToIndex\<close> and \<open>AnimationNameToId\<close> are not cleared.\<close>

definition release :: "scene_animator \<Rightarrow> scene_animator option" where
  "release s =
     Option.bind (case root s of None \<Rightarrow> Some (heap (skel s)) | Some r \<Rightarrow> delete_list (heap (skel s)) [r])
       (\<lambda>h. Some (s\<lparr>current_anim := -1, animations := [], skel := (skel s)\<lparr>heap := h\<rparr>, root := None\<rparr>))"

text \<open>\<open>~SceneAnimator()\<close>: \<open>Release()\<close>; the members are then destroyed, which frees no bone.
  The result says whether the destruction is defined.\<close>

definition destroy_sa :: "scene_animator \<Rightarrow> unit option" where
  "destroy_sa s = map_option (\<lambda>_. ()) (release s)"

subsection \<open>Selecting the animation\<close>

text \<open>\<open>SetAnimIndex(pAnimIndex)\<close>: returns whether the index changed.\<close>

definition set_anim_index :: "32 word \<Rightarrow> scene_animator \<Rightarrow> bool \<times> scene_animator" where
  "set_anim_index i s =
     (if index_out_of_range i (animations s) then (False, s)
      else (current_anim s \<noteq> i, s\<lparr>current_anim := i\<rparr>))"

text \<open>\<open>SetAnimation(name)\<close>: the index stored for the name, if there is one, unchecked.\<close>

definition set_animation :: "string \<Rightarrow> scene_animator \<Rightarrow> bool \<times> scene_animator" where
  "set_animation nm s =
     (let s' = (case anim_name_to_id s nm of None \<Rightarrow> s | Some i \<Rightarrow> s\<lparr>current_anim := i\<rparr>)
      in (current_anim s \<noteq> current_anim s', s'))"

subsection \<open>Calculating a pose\<close>

text \<open>The writes \<open>TransformMatrix(bonenode->second->LocalTransform, mat)\<close> of
  \<open>Evaluate\<close>, in order, on the bone arena.\<close>

fun write_locals :: "(nat \<times> mat4) list \<Rightarrow> heap \<Rightarrow> heap option" where
  "write_locals [] h = Some h"
| "write_locals ((b, m) # ws) h =
     (case h b of
        None \<Rightarrow> None
      | Some bn \<Rightarrow> write_locals ws (h(b \<mapsto> bn\<lparr>local_transform := m\<rparr>)))"

text \<open>\<open>Calculate(pTime)\<close>: nothing for an invalid index; otherwise evaluate the current
  animation against \<open>BonesByName\<close> and update the whole tree from \<open>Skeleton\<close>
  (\<open>UpdateTransforms(NULL)\<close> dereferences a null pointer).\<close>

definition calculate :: "f32 \<Rightarrow> scene_animator \<Rightarrow> scene_animator option" where
  "calculate p s =
     (let cur = current_anim s
      in if sint cur < 0 \<or> index_out_of_range cur (animations s) then Some s
         else (let (ev', ws) = evaluate p (bones_by_name (skel s)) (animations s ! size_index cur)
               in Option.bind (write_locals ws (heap (skel s))) (\<lambda>h1.
                    Option.bind (case root s of None \<Rightarrow> None | Some r \<Rightarrow> update_transforms h1 r) (\<lambda>h2.
                      Some (s\<lparr>animations := (animations s)[size_index cur := ev'],
                              skel := (skel s)\<lparr>heap := h2\<rparr>\<rparr>)))))"

text \<open>One skinning matrix, \<open>Bones[a]->Offset * Bones[a]->GlobalTransform\<close>.\<close>

definition bone_matrix :: "heap \<Rightarrow> nat \<Rightarrow> mat4 option" where
  "bone_matrix h p = map_option (\<lambda>b. offset b * global_transform b) (h p)"

text \<open>The skinning matrices of the first \<open>Transforms.size()\<close> bones, as both
  \<open>CalcBoneMatrices\<close> and the bake loop compute them.\<close>

definition frame_of :: "scene_animator \<Rightarrow> mat4 list option" where
  "frame_of s =
     (if length (sa_transforms s) \<le> length (bone_ptrs s)
      then those (map (bone_matrix (heap (skel s))) (take (length (sa_transforms s)) (bone_ptrs s)))
      else None)"

definition calc_bone_matrices :: "scene_animator \<Rightarrow> scene_animator option" where
  "calc_bone_matrices s = map_option (\<lambda>fr. s\<lparr>sa_transforms := fr\<rparr>) (frame_of s)"

subsection \<open>The inline members of the header\<close>

text \<open>The members that index \<open>Animations[CurrentAnimIndex]\<close> without a check: an invalid
  index (\<open>-1\<close> after construction or \<open>Release\<close>) is an out-of-bounds access.\<close>

definition current_valid :: "scene_animator \<Rightarrow> bool" where
  "current_valid s \<longleftrightarrow> \<not> (sint (current_anim s) < 0 \<or> index_out_of_range (current_anim s) (animations s))"

definition update_current :: "(anim_evaluator \<Rightarrow> anim_evaluator) \<Rightarrow> scene_animator \<Rightarrow> scene_animator option" where
  "update_current f s =
     (if current_valid s
      then Some (s\<lparr>animations := (animations s)[size_index (current_anim s) := f (animations s ! size_index (current_anim s))]\<rparr>)
      else None)"

definition current_ev :: "scene_animator \<Rightarrow> anim_evaluator option" where
  "current_ev s = (if current_valid s then Some (animations s ! size_index (current_anim s)) else None)"

text \<open>\<open>PlayAnimationForward()\<close>, \<open>PlayAnimationBackward()\<close>,
  \<open>AdjustAnimationSpeedBy(percent)\<close> (\<open>TicksPerSecond *= percent/100\<close>),
  \<open>AdjustAnimationSpeedTo(tps)\<close>.\<close>

definition play_forward_sa :: "scene_animator \<Rightarrow> scene_animator option" where
  "play_forward_sa = update_current (\<lambda>ev. ev\<lparr>play_forward := Some True\<rparr>)"

definition play_backward_sa :: "scene_animator \<Rightarrow> scene_animator option" where
  "play_backward_sa = update_current (\<lambda>ev. ev\<lparr>play_forward := Some False\<rparr>)"

definition adjust_speed_by :: "f32 \<Rightarrow> scene_animator \<Rightarrow> scene_animator option" where
  "adjust_speed_by pc = update_current (\<lambda>ev. ev\<lparr>ticks_per_second := ticks_per_second ev * (pc / 100)\<rparr>)"

definition adjust_speed_to :: "f32 \<Rightarrow> scene_animator \<Rightarrow> scene_animator option" where
  "adjust_speed_to tps = update_current (\<lambda>ev. ev\<lparr>ticks_per_second := tps\<rparr>)"

text \<open>\<open>GetAnimationSpeed()\<close>, \<open>GetTransforms(dt)\<close>, \<open>GetAnimationName()\<close>,
  \<open>HasSkeleton()\<close>.\<close>

definition get_animation_speed :: "scene_animator \<Rightarrow> f32 option" where
  "get_animation_speed s = map_option ticks_per_second (current_ev s)"

definition get_transforms_sa :: "f32 \<Rightarrow> scene_animator \<Rightarrow> mat4 list option" where
  "get_transforms_sa dt s = Option.bind (current_ev s) (\<lambda>ev. get_transforms ev dt)"

definition get_animation_name :: "scene_animator \<Rightarrow> string option" where
  "get_animation_name s = map_option ev_name (current_ev s)"

definition has_skeleton :: "scene_animator \<Rightarrow> bool" where
  "has_skeleton s \<longleftrightarrow> bone_ptrs s \<noteq> []"

text \<open>\<open>GetAnimationIndex()\<close>: \<open>CurrentAnimIndex\<close>, unchecked.\<close>

definition get_animation_index :: "scene_animator \<Rightarrow> 32 word" where
  "get_animation_index s = current_anim s"

text \<open>\<open>GetBoneIndex(name)\<close>: the \<open>unsigned\<close> index converted to \<open>int\<close>, or \<open>-1\<close>.\<close>

definition get_bone_index :: "string \<Rightarrow> scene_animator \<Rightarrow> 32 word" where
  "get_bone_index nm s = (case bones_to_index s nm of None \<Rightarrow> -1 | Some i \<Rightarrow> word_of_nat i)"

text \<open>\<open>GetBoneTransform(dt, name)\<close>: the identity for an unknown name, else the bone's
  matrix in the frame for \<open>dt\<close>; and \<open>GetBoneTransform(dt, index)\<close>.\<close>

definition get_bone_transform_at :: "f32 \<Rightarrow> nat \<Rightarrow> scene_animator \<Rightarrow> mat4 option" where
  "get_bone_transform_at dt i s =
     Option.bind (get_transforms_sa dt s) (\<lambda>fr. if i < length fr then Some (fr ! i) else None)"

definition get_bone_transform :: "f32 \<Rightarrow> string \<Rightarrow> scene_animator \<Rightarrow> mat4 option" where
  "get_bone_transform dt nm s =
     (let bi = get_bone_index nm s
      in if bi = -1 then Some 1 else get_bone_transform_at dt (size_index bi) s)"

subsection \<open>The animator as a state machine\<close>

text \<open>The calls a client makes on an initialised animator, each a step that may be
  undefined.\<close>

datatype sa_op =
    OpCalculate f32
  | OpSetAnimIndex "32 word"
  | OpSetAnimation string
  | OpCalcBoneMatrices
  | OpPlayForward
  | OpPlayBackward
  | OpAdjustSpeedBy f32
  | OpAdjustSpeedTo f32

fun sa_step :: "sa_op \<Rightarrow> scene_animator \<Rightarrow> scene_animator option" where
  "sa_step (OpCalculate p) s = calculate p s"
| "sa_step (OpSetAnimIndex i) s = Some (snd (set_anim_index i s))"
| "sa_step (OpSetAnimation nm) s = Some (snd (set_animation nm s))"
| "sa_step OpCalcBoneMatrices s = calc_bone_matrices s"
| "sa_step OpPlayForward s = play_forward_sa s"
| "sa_step OpPlayBackward s = play_backward_sa s"
| "sa_step (OpAdjustSpeedBy pc) s = adjust_speed_by pc s"
| "sa_step (OpAdjustSpeedTo t) s = adjust_speed_to t s"

fun sa_run :: "sa_op list \<Rightarrow> scene_animator \<Rightarrow> scene_animator option" where
  "sa_run [] s = Some s"
| "sa_run (op # ops) s = Option.bind (sa_step op s) (sa_run ops)"

text \<open>
  The state of an initialised animator that no call can break: a well-formed tree with a
  root, every pointer of \<open>BonesByName\<close> and \<open>Bones\<close> allocated, \<open>Transforms\<close> no longer
  than \<open>Bones\<close>, fewer than \<open>2^31\<close> animations each with valid cursors, a valid current
  index and only valid indices in \<open>AnimationNameToId\<close>.
\<close>

definition anim_ok :: "scene_animator \<Rightarrow> bool" where
  "anim_ok s \<longleftrightarrow>
     tree_wf (next_id (skel s)) (heap (skel s)) \<and>
     (\<exists>r. root s = Some r \<and> heap (skel s) r \<noteq> None) \<and>
     (\<forall>b \<in> ran (bones_by_name (skel s)). heap (skel s) b \<noteq> None) \<and>
     (\<forall>p \<in> set (bone_ptrs s). heap (skel s) p \<noteq> None) \<and>
     length (sa_transforms s) \<le> length (bone_ptrs s) \<and>
     length (animations s) < 2 ^ 31 \<and>
     (\<forall>ev \<in> set (animations s). ev_inv (bones_by_name (skel s)) ev) \<and>
     current_valid s \<and>
     (\<forall>i \<in> ran (anim_name_to_id s). 0 \<le> sint i \<and> nat (sint i) < length (animations s))"

subsection \<open>Lemmas\<close>


lemma unat_scast_64: "unat (scast (w::32 word) :: 64 word) = nat (sint w mod 2^64)"
  unfolding scast_eq unat_eq_nat_uint uint_word_of_int_eq take_bit_eq_mod
  by simp

lemma sint32_range: "- (2 ^ 31) \<le> sint (w::32 word) \<and> sint w < 2 ^ 31"
  using sint_ge [of w] sint_lt [of w] by simp

lemma size_index_nonneg: "0 \<le> sint i \<Longrightarrow> size_index i = nat (sint i)"
proof -
  assume nn: "0 \<le> sint i"
  have "sint i mod 2 ^ 64 = sint i"
    using nn sint32_range [of i] by (intro mod_pos_pos_trivial) simp_all
  then show ?thesis
    by (simp add: size_index_def unat_scast_64)
qed

lemma size_index_neg:
  assumes "sint i < 0"
  shows "2 ^ 63 \<le> size_index i"
proof -
  have lo: "- (2 ^ 31) \<le> sint i"
    using sint32_range by blast
  have "sint i mod 2 ^ 64 = (sint i + 2 ^ 64) mod 2 ^ 64"
    by (simp only: mod_add_self2)
  also have "\<dots> = sint i + 2 ^ 64"
    using assms lo by (intro mod_pos_pos_trivial) simp_all
  finally have "size_index i = nat (sint i + 2 ^ 64)"
    by (simp add: size_index_def unat_scast_64)
  with lo show ?thesis
    by simp
qed

lemma index_out_of_range_iff:
  assumes "length anims < 2 ^ 63"
  shows "index_out_of_range i anims \<longleftrightarrow> sint i < 0 \<or> length anims \<le> nat (sint i)"
proof (cases "sint i < 0")
  case True
  with size_index_neg [OF True] assms show ?thesis
    by (simp add: index_out_of_range_def)
next
  case False
  then show ?thesis
    by (simp add: index_out_of_range_def size_index_nonneg)
qed

lemma current_valid_iff:
  "length (animations s) < 2 ^ 63 \<Longrightarrow>
   current_valid s \<longleftrightarrow> 0 \<le> sint (current_anim s) \<and> nat (sint (current_anim s)) < length (animations s)"
  by (auto simp: current_valid_def index_out_of_range_iff)

lemma write_locals_Some:
  "\<forall>w \<in> set ws. h (fst w) \<noteq> None \<Longrightarrow>
   \<exists>h'. write_locals ws h = Some h' \<and> bones_frame h' = bones_frame h"
proof (induction ws arbitrary: h)
  case Nil
  then show ?case
    by simp
next
  case (Cons w ws)
  obtain b m where w: "w = (b, m)"
    by (cases w)
  from Cons.prems w obtain bn where bn: "h b = Some bn"
    by auto
  let ?h1 = "h(b \<mapsto> bn\<lparr>local_transform := m\<rparr>)"
  have fr: "bones_frame ?h1 = bones_frame h"
    using bn by (auto simp: bones_frame_def fun_eq_iff)
  have "\<forall>w \<in> set ws. ?h1 (fst w) \<noteq> None"
    using Cons.prems by auto
  from Cons.IH [OF this] obtain h' where "write_locals ws ?h1 = Some h'" "bones_frame h' = bones_frame ?h1"
    by blast
  with fr w bn show ?case
    by simp
qed

lemma calculate_valid:
  fixes p :: f32
  assumes cv: "current_valid s" and r: "root s = Some r" and wf: "tree_wf n (heap (skel s))"
    and hr: "heap (skel s) r \<noteq> None"
    and names: "\<forall>b \<in> ran (bones_by_name (skel s)). heap (skel s) b \<noteq> None"
    and inv: "ev_inv (bones_by_name (skel s)) (animations s ! size_index (current_anim s))"
  defines "ev \<equiv> animations s ! size_index (current_anim s)"
  defines "res \<equiv> evaluate p (bones_by_name (skel s)) ev"
  shows "\<exists>h1 h2. write_locals (snd res) (heap (skel s)) = Some h1 \<and>
           bones_frame h1 = bones_frame (heap (skel s)) \<and>
           update_transforms h1 r = Some h2 \<and> shape h2 = shape h1 \<and>
           (\<forall>j \<in> subtree (heap (skel s)) {r}. global_ok h2 j) \<and>
           calculate p s = Some (s\<lparr>animations := (animations s)[size_index (current_anim s) := fst res],
                                   skel := (skel s)\<lparr>heap := h2\<rparr>\<rparr>)"
proof -
  let ?h = "heap (skel s)"
  have "\<forall>w \<in> set (snd res). ?h (fst w) \<noteq> None"
    using names evaluate_targets [OF inv [folded ev_def]] by (auto simp: res_def)
  from write_locals_Some [OF this] obtain h1 where h1: "write_locals (snd res) ?h = Some h1"
    "bones_frame h1 = bones_frame ?h"
    by blast
  have wf1: "tree_wf n h1"
    using tree_wf_frame [OF h1(2)] wf by simp
  have hr1: "h1 r \<noteq> None"
    using frame_dom [OF h1(2)] hr by simp
  from update_list_spec_aux [of n 0 n h1 "[r]"] wf1 hr1 obtain h2 where
    h2: "update_transforms h1 r = Some h2" "shape h2 = shape h1"
    "\<forall>j \<in> subtree h1 {r}. global_ok h2 j"
    by (auto simp: update_transforms_def)
  have sub: "subtree h1 {r} = subtree ?h {r}"
    by (rule subtree_frame [OF h1(2)])
  have "calculate p s = Some (s\<lparr>animations := (animations s)[size_index (current_anim s) := fst res],
                                 skel := (skel s)\<lparr>heap := h2\<rparr>\<rparr>)"
    using cv r h1(1) h2(1)
    by (simp add: calculate_def current_valid_def res_def ev_def split_def Let_def)
  with h1 h2 sub show ?thesis
    by auto
qed

lemma current_valid_animations [simp]:
  "length xs = length (animations s) \<Longrightarrow> current_valid (s\<lparr>animations := xs\<rparr>) = current_valid s"
  by (simp add: current_valid_def index_out_of_range_def)

lemma current_valid_index:
  "current_valid s \<Longrightarrow> size_index (current_anim s) < length (animations s)"
  by (simp add: current_valid_def index_out_of_range_def)

lemma anim_ok_frame:
  assumes "anim_ok s" "bones_frame h = bones_frame (heap (skel s))"
  shows "anim_ok (s\<lparr>skel := (skel s)\<lparr>heap := h\<rparr>\<rparr>)"
proof -
  have dom: "\<And>j. (h j = None) = (heap (skel s) j = None)"
    by (rule frame_dom [OF assms(2)])
  have "tree_wf n h = tree_wf n (heap (skel s))" for n
    by (rule tree_wf_frame [OF assms(2)])
  with assms(1) dom show ?thesis
    by (simp add: anim_ok_def current_valid_def index_out_of_range_def)
qed

lemma anim_ok_update:
  assumes "anim_ok s" "i < length (animations s)" "ev_inv (bones_by_name (skel s)) ev"
  shows "anim_ok (s\<lparr>animations := (animations s)[i := ev]\<rparr>)"
proof -
  have "set ((animations s)[i := ev]) \<subseteq> insert ev (set (animations s))"
    by (rule set_update_subset_insert)
  with assms show ?thesis
    by (auto simp: anim_ok_def)
qed

lemma anim_ok_calculate:
  assumes "anim_ok s"
  shows "\<exists>s'. calculate p s = Some s' \<and> anim_ok s'"
proof -
  from assms obtain r where r: "root s = Some r" "heap (skel s) r \<noteq> None"
    by (auto simp: anim_ok_def)
  let ?i = "size_index (current_anim s)"
  have cv: "current_valid s" and wf: "tree_wf (next_id (skel s)) (heap (skel s))"
    and names: "\<forall>b \<in> ran (bones_by_name (skel s)). heap (skel s) b \<noteq> None"
    using assms by (simp_all add: anim_ok_def)
  have i: "?i < length (animations s)"
    by (rule current_valid_index [OF cv])
  with assms have inv: "ev_inv (bones_by_name (skel s)) (animations s ! ?i)"
    by (auto simp: anim_ok_def)
  from calculate_valid [OF cv r(1) wf r(2) names inv, of p] obtain h1 h2 where
    fr: "bones_frame h1 = bones_frame (heap (skel s))" and sh: "shape h2 = shape h1"
    and c: "calculate p s = Some (s\<lparr>animations := (animations s)[?i := fst (evaluate p (bones_by_name (skel s)) (animations s ! ?i))],
                                    skel := (skel s)\<lparr>heap := h2\<rparr>\<rparr>)"
    by blast
  have "anim_ok (s\<lparr>animations := (animations s)[?i := fst (evaluate p (bones_by_name (skel s)) (animations s ! ?i))]\<rparr>)"
    using anim_ok_update [OF assms i evaluate_inv [OF inv]] .
  moreover have "bones_frame h2 = bones_frame (heap (skel s))"
    using shape_frame [OF sh] fr by simp
  ultimately have "anim_ok (s\<lparr>animations := (animations s)[?i := fst (evaluate p (bones_by_name (skel s)) (animations s ! ?i))],
                              skel := (skel s)\<lparr>heap := h2\<rparr>\<rparr>)"
    using anim_ok_frame by fastforce
  with c show ?thesis
    by blast
qed

lemma those_map_Some:
  "\<forall>x \<in> set xs. f x \<noteq> None \<Longrightarrow> \<exists>ys. those (map f xs) = Some ys \<and> length ys = length xs"
  by (induction xs) auto

lemma frame_of_Some:
  assumes "anim_ok s"
  shows "\<exists>fr. frame_of s = Some fr \<and> length fr = length (sa_transforms s)"
proof -
  have len: "length (sa_transforms s) \<le> length (bone_ptrs s)"
    and ptrs: "\<forall>p \<in> set (bone_ptrs s). heap (skel s) p \<noteq> None"
    using assms by (simp_all add: anim_ok_def)
  have "\<forall>p \<in> set (take (length (sa_transforms s)) (bone_ptrs s)). bone_matrix (heap (skel s)) p \<noteq> None"
    using ptrs by (auto simp: bone_matrix_def dest: in_set_takeD)
  from those_map_Some [OF this] len show ?thesis
    by (auto simp: frame_of_def)
qed

lemma anim_ok_update_current:
  assumes "anim_ok s" "\<And>ev. ev_inv (bones_by_name (skel s)) ev \<Longrightarrow> ev_inv (bones_by_name (skel s)) (f ev)"
  shows "\<exists>s'. update_current f s = Some s' \<and> anim_ok s'"
proof -
  let ?i = "size_index (current_anim s)"
  have cv: "current_valid s"
    using assms(1) by (simp add: anim_ok_def)
  have i: "?i < length (animations s)"
    by (rule current_valid_index [OF cv])
  with assms(1) have "ev_inv (bones_by_name (skel s)) (animations s ! ?i)"
    by (auto simp: anim_ok_def)
  from anim_ok_update [OF assms(1) i assms(2) [OF this]] cv show ?thesis
    by (simp add: update_current_def)
qed

lemma ev_inv_settings [simp]:
  "ev_inv bones (ev\<lparr>play_forward := x\<rparr>) = ev_inv bones ev"
  "ev_inv bones (ev\<lparr>ticks_per_second := t\<rparr>) = ev_inv bones ev"
  by (simp_all add: ev_inv_def)

lemma anim_ok_set_current:
  assumes "anim_ok s" "0 \<le> sint i" "nat (sint i) < length (animations s)"
  shows "anim_ok (s\<lparr>current_anim := i\<rparr>)"
proof -
  have "length (animations s) < 2 ^ 63"
    using assms(1) by (simp add: anim_ok_def)
  with assms show ?thesis
    by (simp add: anim_ok_def current_valid_iff)
qed

lemma anim_ok_step:
  assumes "anim_ok s"
  shows "\<exists>s'. sa_step op s = Some s' \<and> anim_ok s'"
proof (cases op)
  case (OpCalculate p)
  with anim_ok_calculate [OF assms] show ?thesis
    by simp
next
  case (OpSetAnimIndex i)
  have small: "length (animations s) < 2 ^ 63"
    using assms by (simp add: anim_ok_def)
  show ?thesis
  proof (cases "index_out_of_range i (animations s)")
    case True
    with OpSetAnimIndex assms show ?thesis
      by (simp add: set_anim_index_def)
  next
    case False
    with index_out_of_range_iff [OF small] have "0 \<le> sint i" "nat (sint i) < length (animations s)"
      by auto
    from anim_ok_set_current [OF assms this] False OpSetAnimIndex show ?thesis
      by (simp add: set_anim_index_def)
  qed
next
  case (OpSetAnimation nm)
  show ?thesis
  proof (cases "anim_name_to_id s nm")
    case None
    with OpSetAnimation assms show ?thesis
      by (simp add: set_animation_def)
  next
    case (Some i)
    then have "i \<in> ran (anim_name_to_id s)"
      by (rule ranI)
    with assms have "0 \<le> sint i" "nat (sint i) < length (animations s)"
      by (auto simp: anim_ok_def)
    from anim_ok_set_current [OF assms this] Some OpSetAnimation show ?thesis
      by (simp add: set_animation_def)
  qed
next
  case OpCalcBoneMatrices
  from frame_of_Some [OF assms] obtain fr where "frame_of s = Some fr" "length fr = length (sa_transforms s)"
    by blast
  with assms OpCalcBoneMatrices show ?thesis
    by (simp add: calc_bone_matrices_def anim_ok_def current_valid_def index_out_of_range_def)
next
  case OpPlayForward
  with anim_ok_update_current [OF assms] show ?thesis
    by (simp add: play_forward_sa_def)
next
  case OpPlayBackward
  with anim_ok_update_current [OF assms] show ?thesis
    by (simp add: play_backward_sa_def)
next
  case (OpAdjustSpeedBy pc)
  with anim_ok_update_current [OF assms] show ?thesis
    by (simp add: adjust_speed_by_def)
next
  case (OpAdjustSpeedTo t)
  with anim_ok_update_current [OF assms] show ?thesis
    by (simp add: adjust_speed_to_def)
qed

lemma delete_list_spec:
  assumes "delete_list h ids = Some h'"
  shows "(\<forall>q. h' q \<noteq> None \<longrightarrow> h' q = h q) \<and> (\<forall>q \<in> set ids. h q \<noteq> None \<and> h' q = None) \<and>
         (\<forall>j b. h j = Some b \<longrightarrow> h' j = None \<longrightarrow> (\<forall>c \<in> set (children b). h' c = None))"
proof (rule delete_list.raw_induct [where P = "\<lambda>h ids h'. (\<forall>q. h' q \<noteq> None \<longrightarrow> h' q = h q) \<and>
    (\<forall>q \<in> set ids. h q \<noteq> None \<and> h' q = None) \<and>
    (\<forall>j b. h j = Some b \<longrightarrow> h' j = None \<longrightarrow> (\<forall>c \<in> set (children b). h' c = None))", OF _ assms], goal_cases)
  case (1 f h ids h')
  show ?case
  proof (cases ids)
    case Nil
    with "1"(2) show ?thesis
      by simp
  next
    case (Cons i rest)
    obtain b where b: "h i = Some b"
      using "1"(2) Cons by (cases "h i") simp_all
    with "1"(2) Cons obtain h1 where d1: "f h (children b) = Some h1"
      and d2: "f (h1(i := None)) rest = Some h'"
      by (cases "f h (children b)") simp_all
    from "1"(1) [OF d1] have A1: "\<And>q. h1 q \<noteq> None \<Longrightarrow> h1 q = h q"
      and A2: "\<And>q. q \<in> set (children b) \<Longrightarrow> h1 q = None"
      and A3: "\<And>j bj c. h j = Some bj \<Longrightarrow> h1 j = None \<Longrightarrow> c \<in> set (children bj) \<Longrightarrow> h1 c = None"
      by blast+
    from "1"(1) [OF d2] have B1: "\<And>q. h' q \<noteq> None \<Longrightarrow> h' q = (h1(i := None)) q"
      and B2: "\<And>q. q \<in> set rest \<Longrightarrow> (h1(i := None)) q \<noteq> None \<and> h' q = None"
      and B3: "\<And>j bj c. (h1(i := None)) j = Some bj \<Longrightarrow> h' j = None \<Longrightarrow> c \<in> set (children bj) \<Longrightarrow> h' c = None"
      by blast+
    have dead: "h' q = None" if q: "(h1(i := None)) q = None" for q
      using B1 [of q] q by fastforce
    have keep: "h' q = h q" if q: "h' q \<noteq> None" for q
    proof -
      have "h' q = (h1(i := None)) q"
        using B1 [OF q] .
      with q have "q \<noteq> i" "h1 q \<noteq> None" "h' q = h1 q"
        by (auto split: if_splits)
      with A1 [of q] show ?thesis
        by simp
    qed
    have roots: "h q \<noteq> None \<and> h' q = None" if q: "q \<in> set ids" for q
    proof (cases "q = i")
      case True
      with b dead show ?thesis
        by simp
    next
      case False
      with q Cons have "q \<in> set rest"
        by simp
      with B2 [of q] False have "h1 q \<noteq> None" "h' q = None"
        by simp_all
      with A1 [of q] show ?thesis
        by simp
    qed
    have clos: "h' c = None" if hj: "h j = Some bj" and dj: "h' j = None"
      and c: "c \<in> set (children bj)" for j bj c
    proof (cases "j = i")
      case True
      with b hj c A2 [of c] show ?thesis
        by (intro dead) simp
    next
      case False
      show ?thesis
      proof (cases "h1 j")
        case None
        with A3 [OF hj None c] show ?thesis
          by (intro dead) simp
      next
        case (Some bj')
        with A1 [of j] hj have "h1 j = Some bj"
          by simp
        with False have "(h1(i := None)) j = Some bj"
          by simp
        from B3 [OF this dj c] show ?thesis .
      qed
    qed
    from keep roots clos show ?thesis
      by blast
  qed
qed

lemma delete_list_subtree:
  assumes "delete_list h ids = Some h'" "q \<in> subtree h (set ids)"
  shows "h' q = None"
  using assms(2)
proof (induction rule: subtree.induct)
  case (root i)
  with delete_list_spec [OF assms(1)] show ?case
    by blast
next
  case (child j b c)
  with delete_list_spec [OF assms(1)] show ?case
    by blast
qed

text \<open>C16: from a state satisfying \<open>anim_ok\<close>, any sequence of calls of \<open>Calculate\<close>,
  \<open>SetAnimIndex\<close>, \<open>SetAnimation\<close>, \<open>CalcBoneMatrices\<close>, \<open>PlayAnimationForward\<close>,
  \<open>PlayAnimationBackward\<close>, \<open>AdjustAnimationSpeedBy\<close> and \<open>AdjustAnimationSpeedTo\<close>
  has no undefined behaviour (no dangling or null bone, no out-of-range animation index)
  and ends in a state satisfying \<open>anim_ok\<close> again.\<close>

theorem sa_run_safe:
  "anim_ok s \<Longrightarrow> \<exists>s'. sa_run ops s = Some s' \<and> anim_ok s'"
proof (induction ops arbitrary: s)
  case Nil
  then show ?case
    by simp
next
  case (Cons op ops)
  from anim_ok_step [OF Cons.prems, of op] obtain s1 where "sa_step op s = Some s1" "anim_ok s1"
    by blast
  with Cons.IH [of s1] show ?case
    by simp
qed

lemma delete_list_Nil [simp]: "delete_list h [] = Some h"
  by (simp add: delete_list.simps)

lemma delete_list_Cons:
  "delete_list h (i # rest) =
     (case h i of
        None \<Rightarrow> None
      | Some b \<Rightarrow> Option.bind (delete_list h (children b)) (\<lambda>h1. delete_list (h1(i := None)) rest))"
  by (simp add: delete_list.simps)

text \<open>C17: \<open>Calculate\<close> on a valid animator whose current animation has sorted key
  tracks refines the stateless specification: it succeeds, the bones' local transforms are
  exactly those written by the reference pose of the current animation at that time (every
  other field of every bone unchanged apart from the globals), and every bone of the tree
  below \<open>Skeleton\<close> has the global transform \<open>CalculateBoneToWorldTransform\<close> defines.\<close>

theorem calculate_correct:
  assumes ok: "anim_ok s" and r: "root s = Some r"
    and sorted: "ev_sorted (animations s ! size_index (current_anim s))"
  shows "\<exists>h1 s'. write_locals (pose_ref p (bones_by_name (skel s)) (animations s ! size_index (current_anim s)))
                    (heap (skel s)) = Some h1 \<and>
           calculate p s = Some s' \<and> shape (heap (skel s')) = shape h1 \<and>
           (\<forall>j \<in> subtree (heap (skel s)) {r}. global_ok (heap (skel s')) j)"
proof -
  let ?i = "size_index (current_anim s)"
  have cv: "current_valid s" and wf: "tree_wf (next_id (skel s)) (heap (skel s))"
    and names: "\<forall>b \<in> ran (bones_by_name (skel s)). heap (skel s) b \<noteq> None"
    and hr: "heap (skel s) r \<noteq> None"
    using ok r by (auto simp: anim_ok_def)
  have "?i < length (animations s)"
    by (rule current_valid_index [OF cv])
  with ok have inv: "ev_inv (bones_by_name (skel s)) (animations s ! ?i)"
    by (auto simp: anim_ok_def)
  from calculate_valid [OF cv r wf hr names inv, of p] evaluate_pose_ref [OF inv sorted, of p]
  show ?thesis
    by auto
qed

text \<open>C18: \<open>SetAnimIndex(i)\<close> changes the current animation exactly when \<open>i\<close> is a
  valid index, \<open>0 <= i < Animations.size()\<close>, and reports whether it changed; a negative
  \<open>int32_t\<close>, converted to a huge \<open>size_t\<close>, is rejected like a too large one.\<close>

theorem set_anim_index_spec:
  assumes "length (animations s) < 2 ^ 63"
  shows "set_anim_index i s =
           (if 0 \<le> sint i \<and> nat (sint i) < length (animations s)
            then (current_anim s \<noteq> i, s\<lparr>current_anim := i\<rparr>) else (False, s))"
  using index_out_of_range_iff [OF assms, of i] by (auto simp: set_anim_index_def)

text \<open>C19: \<open>Calculate\<close> with a negative current index (\<open>-1\<close> after construction or
  \<open>Release\<close>) or one past the animations does nothing.\<close>

theorem calculate_invalid_noop:
  assumes "length (animations s) < 2 ^ 63"
    "sint (current_anim s) < 0 \<or> length (animations s) \<le> nat (sint (current_anim s))"
  shows "calculate p s = Some s"
  using assms index_out_of_range_iff [OF assms(1), of "current_anim s"]
  by (auto simp: calculate_def)

text \<open>C23: \<open>Release\<close> empties \<open>Animations\<close> but keeps \<open>AnimationNameToId\<close>: after
  releasing a valid animator, \<open>SetAnimation\<close> with a name it had registered reports a change
  and selects the stale index, and every call that then reads the current animation
  (\<open>PlayAnimationForward\<close>, \<open>PlayAnimationBackward\<close>, \<open>AdjustAnimationSpeedBy\<close>,
  \<open>AdjustAnimationSpeedTo\<close>, \<open>GetAnimationSpeed\<close>, \<open>GetAnimationName\<close>,
  \<open>GetTransforms\<close>) indexes past the empty vector.\<close>

theorem release_stale_animation_name:
  assumes ok: "anim_ok s" and rel: "release s = Some s1" and nm: "anim_name_to_id s nm = Some i"
  shows "animations s1 = [] \<and> set_animation nm s1 = (True, s1\<lparr>current_anim := i\<rparr>) \<and>
         sa_step OpPlayForward (s1\<lparr>current_anim := i\<rparr>) = None \<and>
         sa_step OpPlayBackward (s1\<lparr>current_anim := i\<rparr>) = None \<and>
         sa_step (OpAdjustSpeedBy x) (s1\<lparr>current_anim := i\<rparr>) = None \<and>
         sa_step (OpAdjustSpeedTo x) (s1\<lparr>current_anim := i\<rparr>) = None \<and>
         get_animation_speed (s1\<lparr>current_anim := i\<rparr>) = None \<and>
         get_animation_name (s1\<lparr>current_anim := i\<rparr>) = None \<and>
         get_transforms_sa x (s1\<lparr>current_anim := i\<rparr>) = None"
proof -
  from rel have s1: "animations s1 = []" "current_anim s1 = -1" "anim_name_to_id s1 = anim_name_to_id s"
    by (auto simp: release_def split: Option.bind_splits option.splits)
  from ok nm have "0 \<le> sint i"
    by (auto simp: anim_ok_def ran_def)
  then have "i \<noteq> -1"
    by auto
  with s1 nm show ?thesis
    by (simp add: set_animation_def current_valid_def update_current_def current_ev_def
        play_forward_sa_def play_backward_sa_def adjust_speed_by_def adjust_speed_to_def
        get_animation_speed_def get_animation_name_def get_transforms_sa_def index_out_of_range_def)
qed

end
