(* ===== verification/Init.thy ===== *)
theory Init
  imports Animator
begin

text \<open>
  \<open>SceneAnimator::Init\<close> (cAnimationController.cpp lines 244-293) and the parts it calls:
  \<open>ExtractAnimations\<close> (lines 362-372), the collection of the skinned bones of every mesh,
  and the bake loop that precomputes every animation at 30 frames per second (shared with
  \<open>Load\<close>, lines 343-359). The scene handed to \<open>Init\<close> is modelled by the parts of
  \<open>aiScene\<close> the code reads. The theorems give the bake loop's frame count (C20), its
  divergence for a non-positive tick rate (C21) and the time of its first frame (C24), and
  show that \<open>Init\<close> after \<open>Release\<close> reads a freed bone (C22).
\<close>

subsection \<open>The scene\<close>

text \<open>\<open>aiBone\<close>: the name of the node it skins and its offset matrix; a mesh is the list of its
  bones.\<close>

record ai_bone =
  ab_name :: string
  ab_offset :: aimat4

record ai_scene =
  sc_root :: ai_node
  sc_meshes :: "ai_bone list list"
  sc_animations :: "ai_animation list"

subsection \<open>Initialisation\<close>

text \<open>\<open>std::map::insert\<close>: the entry is added only when the key is absent.\<close>

definition map_insert :: "('k \<rightharpoonup> 'v) \<Rightarrow> 'k \<Rightarrow> 'v \<Rightarrow> ('k \<rightharpoonup> 'v)" where
  "map_insert m k v = (case m k of None \<Rightarrow> m(k \<mapsto> v) | Some _ \<Rightarrow> m)"

text \<open>\<open>ExtractAnimations(pScene)\<close>: append an evaluator per animation, insert every
  animation's name with its index, then \<open>CurrentAnimIndex = 0; SetAnimation("Idle")\<close>.\<close>

definition extract_animations :: "ai_scene \<Rightarrow> scene_animator \<Rightarrow> scene_animator" where
  "extract_animations sc s =
     (let anims = animations s @ map make_evaluator (sc_animations sc);
          ids = foldl (\<lambda>m i. map_insert m (ev_name (anims ! i)) (word_of_nat i))
                  (anim_name_to_id s) [0..<length anims]
      in snd (set_animation ''Idle''
                (s\<lparr>animations := anims, anim_name_to_id := ids, current_anim := 0\<rparr>)))"

text \<open>The inner loop of the bone collection: is a bone of this name already in \<open>Bones\<close>?
  Each \<open>Bones[j]->Name\<close> is read until one matches.\<close>

fun bone_listed :: "heap \<Rightarrow> string \<Rightarrow> nat list \<Rightarrow> bool option" where
  "bone_listed h nm [] = Some False"
| "bone_listed h nm (p # ps) =
     (case h p of
        None \<Rightarrow> None
      | Some b \<Rightarrow> if bone_name b = nm then Some True else bone_listed h nm ps)"

text \<open>One \<open>aiBone\<close> of a mesh: if a node of its name exists and no bone of that name is
  listed yet, set the node's offset to the transposed offset matrix, append it to
  \<open>Bones\<close> and record its index.\<close>

definition add_mesh_bone :: "scene_animator \<Rightarrow> ai_bone \<Rightarrow> scene_animator option" where
  "add_mesh_bone s bn =
     (case bones_by_name (skel s) (ab_name bn) of
        None \<Rightarrow> Some s
      | Some p \<Rightarrow>
          Option.bind (bone_listed (heap (skel s)) (ab_name bn) (bone_ptrs s)) (\<lambda>skip.
            if skip then Some s
            else (case heap (skel s) p of
                    None \<Rightarrow> None
                  | Some b \<Rightarrow>
                      Some (s\<lparr>skel := (skel s)\<lparr>heap := (heap (skel s))(p \<mapsto>
                                 b\<lparr>offset := mat4_transpose (transform_matrix (ab_offset bn))\<rparr>)\<rparr>,
                              bone_ptrs := bone_ptrs s @ [p],
                              bones_to_index := (bones_to_index s)(ab_name bn \<mapsto> length (bone_ptrs s))\<rparr>))))"

fun collect_bones :: "ai_bone list list \<Rightarrow> scene_animator \<Rightarrow> scene_animator option" where
  "collect_bones [] s = Some s"
| "collect_bones ([] # ms) s = collect_bones ms s"
| "collect_bones ((bn # bns) # ms) s = Option.bind (add_mesh_bone s bn) (collect_bones (bns # ms))"

text \<open>\<open>std::vector::resize\<close> with default-constructed (identity) matrices.\<close>

definition resize :: "nat \<Rightarrow> mat4 list \<Rightarrow> mat4 list" where
  "resize n xs = take n xs @ replicate (n - length xs) 1"

text \<open>Append a baked frame to animation \<open>i\<close>'s \<open>Transforms\<close>.\<close>

definition push_frame :: "nat \<Rightarrow> mat4 list \<Rightarrow> scene_animator \<Rightarrow> scene_animator" where
  "push_frame i fr s =
     s\<lparr>animations := (animations s)[i := (animations s ! i)\<lparr>transforms := transforms (animations s ! i) @ [fr]\<rparr>]\<rparr>"

text \<open>
  The inner bake loop of \<open>Init\<close> and \<open>Load\<close>:
  \<open>for (ticks = 0; ticks < Duration; ticks += TicksPerSecond/30) { dt += 1/30; Calculate(dt);
  push the frame }\<close>. It does not end when the tick rate is not positive and the duration is,
  so it is a partial function: not returning is \<open>None\<close>.
\<close>

partial_function (option) bake_loop :: "nat \<Rightarrow> f32 \<Rightarrow> f32 \<Rightarrow> scene_animator \<Rightarrow> scene_animator option" where
  "bake_loop i ticks dt s =
     (if ticks < duration (animations s ! i)
      then (let dt' = dt + 1 / 30
            in Option.bind (calculate dt' s) (\<lambda>s1.
                 Option.bind (frame_of s1) (\<lambda>fr.
                   bake_loop i (ticks + ticks_per_second (animations s1 ! i) / 30) dt' (push_frame i fr s1))))
      else Some s)"

text \<open>The outer loop: \<open>SetAnimIndex(i)\<close> (the \<open>size_t\<close> index converted to \<open>int32_t\<close>),
  then the inner loop from \<open>ticks = 0, dt = 0\<close>.\<close>

fun bake_anims :: "nat list \<Rightarrow> scene_animator \<Rightarrow> scene_animator option" where
  "bake_anims [] s = Some s"
| "bake_anims (i # ids) s =
     Option.bind (bake_loop i 0 0 (snd (set_anim_index (word_of_nat i) s))) (bake_anims ids)"

text \<open>\<open>Init(pScene)\<close>: nothing if the scene has no animation; otherwise \<open>Release()\<close>, build
  the tree, extract the animations, collect the skinned bones, size \<open>Transforms\<close> and
  bake every animation.\<close>

definition init :: "ai_scene \<Rightarrow> scene_animator \<Rightarrow> scene_animator option" where
  "init sc s =
     (if sc_animations sc = [] then Some s
      else Option.bind (release s) (\<lambda>s1.
             Option.bind (create_bone_tree (sc_root sc) None (skel s1)) (\<lambda>(r, sk).
               Option.bind (collect_bones (sc_meshes sc)
                              (extract_animations sc (s1\<lparr>skel := sk, root := Some r\<rparr>))) (\<lambda>s2.
                 bake_anims [0..<length (animations s2)]
                   (s2\<lparr>sa_transforms := resize (length (bone_ptrs s2)) (sa_transforms s2)\<rparr>)))))"

text \<open>The timing and the baked frames of every animation.\<close>

definition anim_static :: "scene_animator \<Rightarrow> (f32 \<times> f32 \<times> mat4 list list) list" where
  "anim_static s = map (\<lambda>ev. (duration ev, ticks_per_second ev, transforms ev)) (animations s)"

subsection \<open>Lemmas\<close>

lemma calculate_static:
  assumes "calculate p s = Some s1"
  shows "anim_static s1 = anim_static s"
proof (cases "sint (current_anim s) < 0 \<or> index_out_of_range (current_anim s) (animations s)")
  case True
  with assms show ?thesis
    by (simp add: calculate_def)
next
  case False
  let ?i = "size_index (current_anim s)"
  let ?ev = "fst (evaluate p (bones_by_name (skel s)) (animations s ! ?i))"
  have i: "?i < length (animations s)"
    using False by (simp add: index_out_of_range_def)
  from False assms obtain h2 where
    "s1 = s\<lparr>animations := (animations s)[?i := ?ev], skel := (skel s)\<lparr>heap := h2\<rparr>\<rparr>"
    by (auto simp: calculate_def split_def Let_def split: Option.bind_splits option.splits)
  then show ?thesis
    using i by (simp add: anim_static_def map_update list_update_same_conv)
qed

lemma anim_static_nth:
  assumes "anim_static s1 = anim_static s" "i < length (animations s)"
  shows "length (animations s1) = length (animations s) \<and>
         duration (animations s1 ! i) = duration (animations s ! i) \<and>
         ticks_per_second (animations s1 ! i) = ticks_per_second (animations s ! i) \<and>
         transforms (animations s1 ! i) = transforms (animations s ! i)"
proof -
  have "length (animations s1) = length (animations s)"
    using arg_cong [OF assms(1), of length] by (simp add: anim_static_def)
  moreover have "anim_static s1 ! i = anim_static s ! i"
    using assms(1) by simp
  ultimately show ?thesis
    using assms(2) by (simp add: anim_static_def)
qed

lemma push_frame_nth:
  "i < length (animations s) \<Longrightarrow>
   length (animations (push_frame i fr s)) = length (animations s) \<and>
   duration (animations (push_frame i fr s) ! i) = duration (animations s ! i) \<and>
   ticks_per_second (animations (push_frame i fr s) ! i) = ticks_per_second (animations s ! i) \<and>
   transforms (animations (push_frame i fr s) ! i) = transforms (animations s ! i) @ [fr]"
  by (simp add: push_frame_def)

lemma bake_loop_returns:
  assumes ret: "bake_loop i ticks dt s = Some s'"
  shows "ticks_per_second (animations s ! i) \<le> 0 \<longrightarrow> i < length (animations s) \<longrightarrow>
         \<not> ticks < duration (animations s ! i)"
proof (rule bake_loop.raw_induct [where P = "\<lambda>i ticks dt s s'. ticks_per_second (animations s ! i) \<le> 0 \<longrightarrow>
    i < length (animations s) \<longrightarrow> \<not> ticks < duration (animations s ! i)", OF _ ret])
  fix f i ticks dt s s'
  assume IH: "\<And>i ticks dt s s'. f i ticks dt s = Some s' \<Longrightarrow> ticks_per_second (animations s ! i) \<le> 0 \<longrightarrow>
      i < length (animations s) \<longrightarrow> \<not> ticks < duration (animations s ! i)"
    and eq: "(if ticks < duration (animations s ! i)
       then let dt' = dt + 1 / 30
            in Option.bind (calculate dt' s) (\<lambda>s1.
                 Option.bind (frame_of s1) (\<lambda>fr.
                   f i (ticks + ticks_per_second (animations s1 ! i) / 30) dt' (push_frame i fr s1)))
       else Some s) = Some s'"
  show "ticks_per_second (animations s ! i) \<le> 0 \<longrightarrow> i < length (animations s) \<longrightarrow>
      \<not> ticks < duration (animations s ! i)"
  proof (intro impI notI)
    assume T: "ticks_per_second (animations s ! i) \<le> 0" and i: "i < length (animations s)"
      and lt: "ticks < duration (animations s ! i)"
    from eq lt obtain s1 fr where c: "calculate (dt + 1 / 30) s = Some s1" and "frame_of s1 = Some fr"
      and rec: "f i (ticks + ticks_per_second (animations s1 ! i) / 30) (dt + 1 / 30) (push_frame i fr s1) = Some s'"
      by (auto simp: Let_def split: Option.bind_splits)
    from anim_static_nth [OF calculate_static [OF c] i] have s1:
      "length (animations s1) = length (animations s)"
      "duration (animations s1 ! i) = duration (animations s ! i)"
      "ticks_per_second (animations s1 ! i) = ticks_per_second (animations s ! i)"
      by simp_all
    with i have p: "length (animations (push_frame i fr s1)) = length (animations s)"
      "duration (animations (push_frame i fr s1) ! i) = duration (animations s ! i)"
      "ticks_per_second (animations (push_frame i fr s1) ! i) = ticks_per_second (animations s ! i)"
      using push_frame_nth [of i s1 fr] by simp_all
    from IH [OF rec] p T i have "\<not> ticks + ticks_per_second (animations s ! i) / 30 < duration (animations s ! i)"
      using s1(3) by simp
    with T lt show False
      by (simp add: divide_nonpos_pos)
  qed
qed

lemma calc_global_dom: "calc_global h i = Some h' \<Longrightarrow> (h' q = None) = (h q = None)"
  by (erule calc_global_SomeD) auto

lemma create_keeps_freed:
  "create_bone_tree nd par s = Some (r, s') \<Longrightarrow> next_id s \<le> next_id s' \<and>
     (\<forall>q < next_id s. heap s q = None \<longrightarrow> heap s' q = None) \<and>
     dom (bones_by_name s) \<subseteq> dom (bones_by_name s')"
  "create_children cs i s = Some s' \<Longrightarrow> next_id s \<le> next_id s' \<and>
     (\<forall>q < next_id s. heap s q = None \<longrightarrow> heap s' q = None) \<and>
     dom (bones_by_name s) \<subseteq> dom (bones_by_name s')"
proof (induction nd par s and cs i s arbitrary: r s' and s' rule: create_bone_tree_create_children.induct)
  case (1 nm tr cs par s)
  let ?i = "next_id s"
  let ?s1 = "s\<lparr>heap := (heap s)(?i \<mapsto> new_bone nm par (mat4_transpose (transform_matrix tr))),
               next_id := Suc ?i, bones_by_name := (bones_by_name s)(nm \<mapsto> ?i)\<rparr>"
  from "1.prems" obtain h where g: "calc_global (heap ?s1) ?i = Some h"
    and c: "create_children cs ?i (?s1\<lparr>heap := h\<rparr>) = Some s'"
    by (auto simp: Let_def split: option.splits)
  have IH: "next_id (?s1\<lparr>heap := h\<rparr>) \<le> next_id s' \<and>
     (\<forall>q < next_id (?s1\<lparr>heap := h\<rparr>). heap (?s1\<lparr>heap := h\<rparr>) q = None \<longrightarrow> heap s' q = None) \<and>
     dom (bones_by_name (?s1\<lparr>heap := h\<rparr>)) \<subseteq> dom (bones_by_name s')"
    using "1.IH" [OF refl refl refl g c] .
  have "heap s' q = None" if q: "q < ?i" "heap s q = None" for q
  proof -
    from q calc_global_dom [OF g, of q] have "h q = None"
      by simp
    with q IH show ?thesis
      by simp
  qed
  with IH show ?case
    by auto
next
  case (2 i s)
  then show ?case
    by simp
next
  case (3 c cs i s)
  from "3.prems" obtain j s1 h where c1: "create_bone_tree c (Some i) s = Some (j, s1)"
    and a: "add_child i j (heap s1) = Some h" and c2: "create_children cs i (s1\<lparr>heap := h\<rparr>) = Some s'"
    by (auto split: option.splits)
  note A = "3.IH"(1) [OF c1] and B = "3.IH"(2) [OF c1 refl a c2]
  have "heap s' q = None" if q: "q < next_id s" "heap s q = None" for q
  proof -
    from q A have "heap s1 q = None"
      by blast
    with add_child_dom [OF a, of q] have "h q = None"
      by simp
    with q A B show ?thesis
      by auto
  qed
  moreover have "dom (bones_by_name s) \<subseteq> dom (bones_by_name s')"
  proof (rule subset_trans)
    show "dom (bones_by_name s) \<subseteq> dom (bones_by_name s1)"
      using A by blast
    show "dom (bones_by_name s1) \<subseteq> dom (bones_by_name s')"
      using B by simp
  qed
  ultimately show ?case
    using A B by simp
qed

lemma extract_animations_keeps:
  "skel (extract_animations sc s) = skel s \<and> bone_ptrs (extract_animations sc s) = bone_ptrs s"
  by (simp add: extract_animations_def set_animation_def Let_def split: option.splits)

lemma bake_loop_prefix:
  assumes "bake_loop i ticks dt s = Some s'"
  shows "i < length (animations s) \<longrightarrow> (\<exists>xs. transforms (animations s' ! i) = transforms (animations s ! i) @ xs)"
proof (rule bake_loop.raw_induct [where P = "\<lambda>i ticks dt s s'. i < length (animations s) \<longrightarrow>
    (\<exists>xs. transforms (animations s' ! i) = transforms (animations s ! i) @ xs)", OF _ assms], goal_cases)
  case (1 f i ticks dt s s')
  show ?case
  proof (intro impI)
    assume i: "i < length (animations s)"
    show "\<exists>xs. transforms (animations s' ! i) = transforms (animations s ! i) @ xs"
    proof (cases "ticks < duration (animations s ! i)")
      case False
      with "1"(2) show ?thesis
        by simp
    next
      case True
      with "1"(2) obtain s1 fr where c: "calculate (dt + 1 / 30) s = Some s1" and "frame_of s1 = Some fr"
        and rec: "f i (ticks + ticks_per_second (animations s1 ! i) / 30) (dt + 1 / 30) (push_frame i fr s1) = Some s'"
        by (auto simp: Let_def split: Option.bind_splits)
      from anim_static_nth [OF calculate_static [OF c] i] have
        "length (animations s1) = length (animations s)"
        "transforms (animations s1 ! i) = transforms (animations s ! i)"
        by simp_all
      with i push_frame_nth [of i s1 fr] have
        "i < length (animations (push_frame i fr s1))"
        "transforms (animations (push_frame i fr s1) ! i) = transforms (animations s ! i) @ [fr]"
        by simp_all
      with "1"(1) [OF rec] show ?thesis
        by auto
    qed
  qed
qed

text \<open>C21: the bake loop of \<open>Init\<close> and \<open>Load\<close> never ends when the animation's tick
  rate is zero or negative and the start tick is below the duration: \<open>ticks\<close> never
  grows. \<open>Load\<close> takes \<open>TicksPerSecond\<close> from the file without the constructor's
  replacement of 0 by 100, and assimp reports negative rates as they are.\<close>

theorem bake_loop_diverges:
  assumes "ticks_per_second (animations s ! i) \<le> 0" "i < length (animations s)"
    "ticks < duration (animations s ! i)"
  shows "bake_loop i ticks dt s = None"
proof (rule ccontr)
  assume "bake_loop i ticks dt s \<noteq> None"
  then obtain s' where "bake_loop i ticks dt s = Some s'"
    by blast
  from bake_loop_returns [OF this] assms show False
    by simp
qed

lemma ev_inv_transforms [simp]: "ev_inv bones (ev\<lparr>transforms := x\<rparr>) = ev_inv bones ev"
  by (simp add: ev_inv_def)

lemma anim_ok_push_frame:
  "anim_ok s \<Longrightarrow> i < length (animations s) \<Longrightarrow> anim_ok (push_frame i fr s)"
proof -
  assume ok: "anim_ok s" and i: "i < length (animations s)"
  then have "ev_inv (bones_by_name (skel s)) (animations s ! i)"
    by (auto simp: anim_ok_def)
  then have "ev_inv (bones_by_name (skel s)) ((animations s ! i)\<lparr>transforms := transforms (animations s ! i) @ [fr]\<rparr>)"
    by simp
  from anim_ok_update [OF ok i this] show ?thesis
    by (simp add: push_frame_def)
qed

lemma bake_loop_step:
  "ticks < duration (animations s ! i) \<Longrightarrow>
   bake_loop i ticks dt s =
     Option.bind (calculate (dt + 1 / 30) s) (\<lambda>s1.
       Option.bind (frame_of s1) (\<lambda>fr.
         bake_loop i (ticks + ticks_per_second (animations s1 ! i) / 30) (dt + 1 / 30) (push_frame i fr s1)))"
  by (subst bake_loop.simps) (simp add: Let_def)

lemma bake_loop_stop:
  "\<not> ticks < duration (animations s ! i) \<Longrightarrow> bake_loop i ticks dt s = Some s"
  by (simp add: bake_loop.simps)

lemma ceiling_count_step:
  fixes T ticks D :: real
  assumes "0 < T" "ticks < D"
  shows "nat \<lceil>(D - ticks) * 30 / T\<rceil> = Suc (nat \<lceil>(D - (ticks + T / 30)) * 30 / T\<rceil>)"
proof -
  have eq: "(D - (ticks + T / 30)) * 30 / T = (D - ticks) * 30 / T - 1"
    using assms(1) by (simp add: field_simps)
  have "0 < (D - ticks) * 30 / T"
    using assms by simp
  then have pos: "0 < \<lceil>(D - ticks) * 30 / T\<rceil>"
    by simp
  have "\<lceil>(D - (ticks + T / 30)) * 30 / T\<rceil> = \<lceil>(D - ticks) * 30 / T\<rceil> - 1"
    unfolding eq by simp
  with pos show ?thesis
    by arith
qed

lemma ceiling_count_stop:
  fixes T ticks D :: real
  shows "0 < T \<Longrightarrow> \<not> ticks < D \<Longrightarrow> nat \<lceil>(D - ticks) * 30 / T\<rceil> = 0"
  by (simp add: divide_nonpos_pos)

lemma bake_loop_frames_aux:
  assumes "nat \<lceil>(duration (animations s ! i) - ticks) * 30 / ticks_per_second (animations s ! i)\<rceil> = k"
    "anim_ok s" "i < length (animations s)" "0 < ticks_per_second (animations s ! i)"
  shows "\<exists>s'. bake_loop i ticks dt s = Some s' \<and> anim_ok s' \<and>
           length (animations s') = length (animations s) \<and>
           length (transforms (animations s' ! i)) = length (transforms (animations s ! i)) + k"
  using assms
proof (induction k arbitrary: ticks dt s)
  case 0
  show ?case
  proof (cases "ticks < duration (animations s ! i)")
    case True
    from ceiling_count_step [OF "0.prems"(4) True] "0.prems"(1) show ?thesis
      by simp
  next
    case False
    with "0.prems"(2,3) show ?thesis
      by (simp add: bake_loop_stop)
  qed
next
  case (Suc k)
  let ?D = "duration (animations s ! i)"
  let ?T = "ticks_per_second (animations s ! i)"
  show ?case
  proof (cases "ticks < ?D")
    case False
    from ceiling_count_stop [OF Suc.prems(4) False] Suc.prems(1) show ?thesis
      by simp
  next
    case True
    from anim_ok_calculate [OF Suc.prems(2), of "dt + 1 / 30"] obtain s1 where
      c: "calculate (dt + 1 / 30) s = Some s1" and ok1: "anim_ok s1"
      by blast
    have st1: "anim_static s1 = anim_static s"
      by (rule calculate_static [OF c])
    from anim_static_nth [OF st1 Suc.prems(3)] have s1:
      "length (animations s1) = length (animations s)" "duration (animations s1 ! i) = ?D"
      "ticks_per_second (animations s1 ! i) = ?T" "transforms (animations s1 ! i) = transforms (animations s ! i)"
      by simp_all
    from frame_of_Some [OF ok1] obtain fr where fr: "frame_of s1 = Some fr"
      by blast
    let ?s2 = "push_frame i fr s1"
    have i1: "i < length (animations s1)"
      using s1(1) Suc.prems(3) by simp
    have ok2: "anim_ok ?s2"
      by (rule anim_ok_push_frame [OF ok1 i1])
    from push_frame_nth [OF i1, of fr] s1 have s2:
      "length (animations ?s2) = length (animations s)" "duration (animations ?s2 ! i) = ?D"
      "ticks_per_second (animations ?s2 ! i) = ?T"
      "transforms (animations ?s2 ! i) = transforms (animations s ! i) @ [fr]"
      by simp_all
    have k: "nat \<lceil>(?D - (ticks + ?T / 30)) * 30 / ?T\<rceil> = k"
      using ceiling_count_step [OF Suc.prems(4) True] Suc.prems(1) by simp
    from Suc.IH [where ticks = "ticks + ?T / 30" and s = ?s2 and dt = "dt + 1 / 30"] k ok2 s2 Suc.prems(3,4)
    obtain s' where s': "bake_loop i (ticks + ?T / 30) (dt + 1 / 30) ?s2 = Some s'" "anim_ok s'"
      "length (animations s') = length (animations s)"
      "length (transforms (animations s' ! i)) = length (transforms (animations ?s2 ! i)) + k"
      by auto
    have run: "bake_loop i ticks dt s = Some s'"
      using True c fr s' s1(3) by (simp add: bake_loop_step)
    from run s' s2 show ?thesis
      by simp
  qed
qed

text \<open>C20: on a valid animator, for an animation with a positive tick rate, the bake loop
  terminates after exactly \<open>ceil((Duration - ticks) * 30 / TicksPerSecond)\<close> iterations,
  appending that many frames to the animation's \<open>Transforms\<close>, and leaves the animator
  valid.\<close>

theorem bake_loop_frames:
  assumes "anim_ok s" "i < length (animations s)" "0 < ticks_per_second (animations s ! i)"
  shows "\<exists>s'. bake_loop i ticks dt s = Some s' \<and> anim_ok s' \<and>
           length (transforms (animations s' ! i)) = length (transforms (animations s ! i)) +
             nat \<lceil>(duration (animations s ! i) - ticks) * 30 / ticks_per_second (animations s ! i)\<rceil>"
  using bake_loop_frames_aux [OF refl assms] by blast

text \<open>C22: \<open>Release\<close> frees the bone tree but keeps \<open>Bones\<close> and \<open>BonesByName\<close>, so
  \<open>Init\<close> on an animator that has a skeleton reads a freed bone: if the first bone of
  \<open>Bones\<close> lies in the tree below \<open>Skeleton\<close> and the scene's first mesh bone has a name
  in \<open>BonesByName\<close>, the bone collection reads \<open>Bones[0]->Name\<close> after the delete, so
  \<open>Init\<close> is undefined whatever the scene's node tree is.\<close>

theorem reinit_use_after_free:
  assumes wf: "tree_wf (next_id (skel s)) (heap (skel s))" and r: "root s = Some r"
    and p: "bone_ptrs s = p # ps" "heap (skel s) p \<noteq> None" "p \<in> subtree (heap (skel s)) {r}"
    and sc: "sc_animations sc \<noteq> []" "sc_meshes sc = (bn # bns) # ms"
    and nm: "bones_by_name (skel s) (ab_name bn) \<noteq> None"
  shows "init sc s = None"
proof (cases "release s")
  case None
  with sc(1) show ?thesis
    by (simp add: init_def)
next
  case (Some s1)
  with r obtain h' where d: "delete_list (heap (skel s)) [r] = Some h'"
    and s1: "s1 = s\<lparr>current_anim := -1, animations := [], skel := (skel s)\<lparr>heap := h'\<rparr>, root := None\<rparr>"
    by (auto simp: release_def split: Option.bind_splits)
  have dead: "heap (skel s1) p = None"
    using delete_list_subtree [OF d] p(3) s1 by simp
  have lt: "p < next_id (skel s1)"
    using tree_wf_dom [OF wf p(2)] s1 by simp
  show ?thesis
  proof (cases "create_bone_tree (sc_root sc) None (skel s1)")
    case None
    with sc(1) Some show ?thesis
      by (simp add: init_def)
  next
    case (Some rs)
    obtain r' sk where rs: "rs = (r', sk)"
      by (cases rs)
    with Some have c: "create_bone_tree (sc_root sc) None (skel s1) = Some (r', sk)"
      by simp
    note grow = create_keeps_freed(1) [OF c]
    let ?s2 = "extract_animations sc (s1\<lparr>skel := sk, root := Some r'\<rparr>)"
    from grow dead lt have hp: "heap (skel ?s2) p = None"
      by (simp add: extract_animations_keeps)
    from grow nm s1 obtain q where q: "bones_by_name (skel ?s2) (ab_name bn) = Some q"
      by (auto simp: extract_animations_keeps)
    have ptrs: "bone_ptrs ?s2 = p # ps"
      using p(1) s1 by (simp add: extract_animations_keeps)
    have "add_mesh_bone ?s2 bn = None"
      using hp q ptrs by (simp add: add_mesh_bone_def)
    then have "collect_bones (sc_meshes sc) ?s2 = None"
      using sc(2) by simp
    with sc(1) \<open>release s = Some s1\<close> c show ?thesis
      by (simp add: init_def)
  qed
qed

text \<open>C24: the bake loop advances \<open>dt\<close> before it calculates, so for an animation with
  positive tick rate and duration the first frame it appends is the pose \<open>Calculate\<close>
  gives one thirtieth of a second in, never the pose at time 0.\<close>

theorem bake_first_frame:
  assumes ok: "anim_ok s" and i: "i < length (animations s)"
    and tps: "0 < ticks_per_second (animations s ! i)" and d: "0 < duration (animations s ! i)"
  shows "\<exists>s' s1 fr. bake_loop i 0 0 s = Some s' \<and> calculate (1 / 30) s = Some s1 \<and>
           frame_of s1 = Some fr \<and> transforms (animations s' ! i) ! length (transforms (animations s ! i)) = fr"
proof -
  obtain s' where b: "bake_loop i 0 0 s = Some s'"
    using bake_loop_frames_aux [OF refl ok i tps] by blast
  with bake_loop_step [of 0 s i 0] d obtain s1 fr where c: "calculate (1 / 30) s = Some s1"
    and f: "frame_of s1 = Some fr"
    and rec: "bake_loop i (ticks_per_second (animations s1 ! i) / 30) (1 / 30) (push_frame i fr s1) = Some s'"
    by (auto split: Option.bind_splits)
  from anim_static_nth [OF calculate_static [OF c] i] have
    "length (animations s1) = length (animations s)"
    "transforms (animations s1 ! i) = transforms (animations s ! i)"
    by simp_all
  with i push_frame_nth [of i s1 fr] have
    "i < length (animations (push_frame i fr s1))"
    "transforms (animations (push_frame i fr s1) ! i) = transforms (animations s ! i) @ [fr]"
    by simp_all
  with bake_loop_prefix [OF rec] obtain xs where
    "transforms (animations s' ! i) = transforms (animations s ! i) @ fr # xs"
    by auto
  with b c f show ?thesis
    by auto
qed

end
