(* ===== verification/Persist.thy ===== *)
theory Persist
  imports Init
begin

text \<open>
  The binary format of \<open>cAnimEvaluator::Save\<close>/\<open>Load\<close> (cAnimationController.cpp lines
  56-136). A file is a list of bytes; \<open>file.write\<close> appends to it and \<open>file.read\<close>
  takes from its front. A read past the end of the file is modelled as a failed load
  (\<open>None\<close>); the C++ stream would instead set its fail bit and leave the rest of the
  object half read. \<open>uint32_t\<close> counts are written little-endian (x86).

  \<open>float\<close> and \<open>double\<close> values are written as their raw bytes. The model's scalars
  are real numbers, so the byte image of a scalar is a parameter, a \<open>scalar_codec\<close>: the
  encoders give 4 and 8 bytes, and the round trip is proved for the values the decoders
  read back unchanged, which for a real IEEE codec is every value the file can hold.
\<close>

type_synonym byte = "8 word"

record scalar_codec =
  enc_f32 :: "real \<Rightarrow> byte list"
  dec_f32 :: "byte list \<Rightarrow> real"
  enc_f64 :: "real \<Rightarrow> byte list"
  dec_f64 :: "byte list \<Rightarrow> real"

subsection \<open>Primitive reads and writes\<close>

text \<open>Little-endian digits of a number in base 256, and their value.\<close>

fun le_digits :: "nat \<Rightarrow> nat \<Rightarrow> nat list" where
  "le_digits 0 x = []"
| "le_digits (Suc n) x = x mod 256 # le_digits n (x div 256)"

primrec le_value :: "nat list \<Rightarrow> nat" where
  "le_value [] = 0"
| "le_value (d # ds) = d + 256 * le_value ds"

text \<open>\<open>file.write(reinterpret_cast<char*>(&nsize), sizeof(uint32_t))\<close> and its read.\<close>

definition bytes_of_u32 :: "32 word \<Rightarrow> byte list" where
  "bytes_of_u32 w = map of_nat (le_digits 4 (unat w))"

definition u32_of_bytes :: "byte list \<Rightarrow> 32 word" where
  "u32_of_bytes bs = of_nat (le_value (map unat bs))"

text \<open>\<open>file.read(buf, n)\<close>: the next \<open>n\<close> bytes and the rest of the file.\<close>

definition read_bytes :: "nat \<Rightarrow> byte list \<Rightarrow> (byte list \<times> byte list) option" where
  "read_bytes n bs = (if n \<le> length bs then Some (take n bs, drop n bs) else None)"

definition read_u32 :: "byte list \<Rightarrow> (32 word \<times> byte list) option" where
  "read_u32 bs = map_option (\<lambda>(xs, r). (u32_of_bytes xs, r)) (read_bytes 4 bs)"

definition read_f32 :: "scalar_codec \<Rightarrow> byte list \<Rightarrow> (real \<times> byte list) option" where
  "read_f32 cd bs = map_option (\<lambda>(xs, r). (dec_f32 cd xs, r)) (read_bytes 4 bs)"

definition read_f64 :: "scalar_codec \<Rightarrow> byte list \<Rightarrow> (real \<times> byte list) option" where
  "read_f64 cd bs = map_option (\<lambda>(xs, r). (dec_f64 cd xs, r)) (read_bytes 8 bs)"

text \<open>\<open>n\<close> items read one after the other.\<close>

primrec read_list :: "nat \<Rightarrow> (byte list \<Rightarrow> ('a \<times> byte list) option) \<Rightarrow> byte list \<Rightarrow> ('a list \<times> byte list) option" where
  "read_list 0 rd bs = Some ([], bs)"
| "read_list (Suc n) rd bs =
     Option.bind (rd bs) (\<lambda>(x, r). map_option (\<lambda>(xs, r'). (x # xs, r')) (read_list n rd r))"

text \<open>A \<open>char\<close> is a byte.\<close>

definition byte_of_char :: "char \<Rightarrow> byte" where
  "byte_of_char c = of_nat (of_char c)"

definition char_of_byte :: "byte \<Rightarrow> char" where
  "char_of_byte b = char_of (unat b)"

text \<open>A name as every \<open>Save\<close> writes it: \<open>nsize = static_cast<uint32_t>(Name.size())\<close>,
  then \<open>file.write(Name.c_str(), nsize)\<close>.\<close>

definition write_name :: "string \<Rightarrow> byte list" where
  "write_name s =
     (let n = (word_of_nat (length s) :: 32 word) in bytes_of_u32 n @ map byte_of_char (take (unat n) s))"

text \<open>A name as every \<open>Load\<close> reads it: \<open>char temp[250]; file.read(temp, nsize);
  temp[nsize] = 0; Name = temp\<close>. A size of 250 or more writes past \<open>temp\<close>; the name
  ends at the first NUL byte.\<close>

definition read_name :: "byte list \<Rightarrow> (string \<times> byte list) option" where
  "read_name bs =
     Option.bind (read_u32 bs) (\<lambda>(n, r).
       if 250 \<le> unat n then None
       else map_option (\<lambda>(xs, r'). (map char_of_byte (takeWhile (\<lambda>b. b \<noteq> 0) xs), r'))
              (read_bytes (unat n) r))"

subsection \<open>Keys and channels\<close>

fun write_vec3 :: "scalar_codec \<Rightarrow> vec3 \<Rightarrow> byte list" where
  "write_vec3 cd (Vec3 x y z) = enc_f32 cd x @ enc_f32 cd y @ enc_f32 cd z"

text \<open>\<open>aiQuaternion\<close> is laid out \<open>w, x, y, z\<close>.\<close>

fun write_quat :: "scalar_codec \<Rightarrow> quat \<Rightarrow> byte list" where
  "write_quat cd (Quat w x y z) = enc_f32 cd w @ enc_f32 cd x @ enc_f32 cd y @ enc_f32 cd z"

definition read_vec3 :: "scalar_codec \<Rightarrow> byte list \<Rightarrow> (vec3 \<times> byte list) option" where
  "read_vec3 cd bs =
     Option.bind (read_f32 cd bs) (\<lambda>(x, r1). Option.bind (read_f32 cd r1) (\<lambda>(y, r2).
       map_option (\<lambda>(z, r3). (Vec3 x y z, r3)) (read_f32 cd r2)))"

definition read_quat :: "scalar_codec \<Rightarrow> byte list \<Rightarrow> (quat \<times> byte list) option" where
  "read_quat cd bs =
     Option.bind (read_f32 cd bs) (\<lambda>(w, r1). Option.bind (read_f32 cd r1) (\<lambda>(x, r2).
       Option.bind (read_f32 cd r2) (\<lambda>(y, r3). map_option (\<lambda>(z, r4). (Quat w x y z, r4)) (read_f32 cd r3))))"

text \<open>A key: \<open>mTime\<close> (a \<open>double\<close>), then \<open>mValue\<close>.\<close>

definition write_key :: "scalar_codec \<Rightarrow> (scalar_codec \<Rightarrow> 'v \<Rightarrow> byte list) \<Rightarrow> 'v key \<Rightarrow> byte list" where
  "write_key cd wv k = enc_f64 cd (key_time k) @ wv cd (key_value k)"

definition read_key :: "scalar_codec \<Rightarrow> (scalar_codec \<Rightarrow> byte list \<Rightarrow> ('v \<times> byte list) option) \<Rightarrow>
    byte list \<Rightarrow> ('v key \<times> byte list) option" where
  "read_key cd rv bs =
     Option.bind (read_f64 cd bs) (\<lambda>(t, r). map_option (\<lambda>(v, r'). (\<lparr>key_time = t, key_value = v\<rparr>, r')) (rv cd r))"

text \<open>A track: \<open>nsize = static_cast<uint32_t>(keys.size())\<close>, then the first
  \<open>nsize\<close> keys.\<close>

definition write_track :: "scalar_codec \<Rightarrow> (scalar_codec \<Rightarrow> 'v \<Rightarrow> byte list) \<Rightarrow> 'v key list \<Rightarrow> byte list" where
  "write_track cd wv ks =
     (let n = (word_of_nat (length ks) :: 32 word)
      in bytes_of_u32 n @ concat (map (write_key cd wv) (take (unat n) ks)))"

definition read_track :: "scalar_codec \<Rightarrow> (scalar_codec \<Rightarrow> byte list \<Rightarrow> ('v \<times> byte list) option) \<Rightarrow>
    byte list \<Rightarrow> ('v key list \<times> byte list) option" where
  "read_track cd rv bs = Option.bind (read_u32 bs) (\<lambda>(n, r). read_list (unat n) (read_key cd rv) r)"

text \<open>One channel of \<open>Save\<close>: the name and the three tracks.\<close>

definition write_channel :: "scalar_codec \<Rightarrow> channel \<Rightarrow> byte list" where
  "write_channel cd ch =
     write_name (ch_name ch) @ write_track cd write_vec3 (position_keys ch) @
     write_track cd write_quat (rotation_keys ch) @ write_track cd write_vec3 (scaling_keys ch)"

definition read_channel :: "scalar_codec \<Rightarrow> byte list \<Rightarrow> (channel \<times> byte list) option" where
  "read_channel cd bs =
     Option.bind (read_name bs) (\<lambda>(nm, r1).
       Option.bind (read_track cd read_vec3 r1) (\<lambda>(pk, r2).
         Option.bind (read_track cd read_quat r2) (\<lambda>(rk, r3).
           map_option (\<lambda>(sk, r4). (\<lparr>ch_name = nm, position_keys = pk, rotation_keys = rk, scaling_keys = sk\<rparr>, r4))
             (read_track cd read_vec3 r3))))"

subsection \<open>The evaluator\<close>

text \<open>\<open>cAnimEvaluator::Save\<close>: name, \<open>Duration\<close>, \<open>TicksPerSecond\<close> (both \<open>float\<close>),
  the channel count, then every channel (the loop runs over \<open>Channels.size()\<close>, not over
  the count written).\<close>

definition save_ev :: "scalar_codec \<Rightarrow> anim_evaluator \<Rightarrow> byte list" where
  "save_ev cd ev =
     write_name (ev_name ev) @ enc_f32 cd (duration ev) @ enc_f32 cd (ticks_per_second ev) @
     bytes_of_u32 (word_of_nat (length (channels ev))) @ concat (map (write_channel cd) (channels ev))"

text \<open>\<open>cAnimEvaluator::Load\<close> into an existing evaluator: name, duration, tick rate,
  \<open>Channels.resize(n)\<close> and every channel read in place, then
  \<open>mLastPositions.resize(Channels.size(), (0,0,0))\<close>, which keeps the cursors already
  there. The tick rate is taken as read: no zero rate is replaced by 100.\<close>

definition load_ev :: "scalar_codec \<Rightarrow> anim_evaluator \<Rightarrow> byte list \<Rightarrow> (anim_evaluator \<times> byte list) option" where
  "load_ev cd ev bs =
     Option.bind (read_name bs) (\<lambda>(nm, r1).
       Option.bind (read_f32 cd r1) (\<lambda>(dur, r2).
         Option.bind (read_f32 cd r2) (\<lambda>(tps, r3).
           Option.bind (read_u32 r3) (\<lambda>(n, r4).
             map_option (\<lambda>(chs, r5).
                 (ev\<lparr>ev_name := nm, duration := dur, ticks_per_second := tps, channels := chs,
                     last_positions := take (unat n) (last_positions ev) @
                                       replicate (unat n - length (last_positions ev)) (0, 0, 0)\<rparr>, r5))
               (read_list (unat n) (read_channel cd) r4)))))"

subsection \<open>Conditions of the round trip\<close>

text \<open>The codec writes 4 and 8 bytes; a name fits \<open>temp[250]\<close> with its terminator and has
  no NUL; counts fit a \<open>uint32_t\<close>; every scalar is read back as written.\<close>

definition codec_wf :: "scalar_codec \<Rightarrow> bool" where
  "codec_wf cd \<longleftrightarrow> (\<forall>x. length (enc_f32 cd x) = 4) \<and> (\<forall>x. length (enc_f64 cd x) = 8)"

definition name_ok :: "string \<Rightarrow> bool" where
  "name_ok s \<longleftrightarrow> length s < 250 \<and> CHR 0x00 \<notin> set s"

fun vec3_vals :: "vec3 \<Rightarrow> real list" where
  "vec3_vals (Vec3 x y z) = [x, y, z]"

fun quat_vals :: "quat \<Rightarrow> real list" where
  "quat_vals (Quat w x y z) = [w, x, y, z]"

definition channel_f32s :: "channel \<Rightarrow> real list" where
  "channel_f32s ch =
     concat (map (vec3_vals \<circ> key_value) (position_keys ch)) @
     concat (map (quat_vals \<circ> key_value) (rotation_keys ch)) @
     concat (map (vec3_vals \<circ> key_value) (scaling_keys ch))"

definition channel_f64s :: "channel \<Rightarrow> real list" where
  "channel_f64s ch = map key_time (position_keys ch) @ map key_time (rotation_keys ch) @
                     map key_time (scaling_keys ch)"

definition channel_ok :: "scalar_codec \<Rightarrow> channel \<Rightarrow> bool" where
  "channel_ok cd ch \<longleftrightarrow> name_ok (ch_name ch) \<and>
     length (position_keys ch) < 2 ^ 32 \<and> length (rotation_keys ch) < 2 ^ 32 \<and>
     length (scaling_keys ch) < 2 ^ 32 \<and>
     (\<forall>x \<in> set (channel_f32s ch). dec_f32 cd (enc_f32 cd x) = x) \<and>
     (\<forall>x \<in> set (channel_f64s ch). dec_f64 cd (enc_f64 cd x) = x)"

definition ev_ok :: "scalar_codec \<Rightarrow> anim_evaluator \<Rightarrow> bool" where
  "ev_ok cd ev \<longleftrightarrow> name_ok (ev_name ev) \<and> length (channels ev) < 2 ^ 32 \<and>
     dec_f32 cd (enc_f32 cd (duration ev)) = duration ev \<and>
     dec_f32 cd (enc_f32 cd (ticks_per_second ev)) = ticks_per_second ev \<and>
     (\<forall>ch \<in> set (channels ev). channel_ok cd ch)"

subsection \<open>Lemmas\<close>

lemma le_value_digits: "le_value (le_digits n x) = x mod 256 ^ n"
proof (induction n arbitrary: x)
  case 0
  then show ?case by simp
next
  case (Suc n)
  then show ?case
    by (simp add: mod_mult2_eq)
qed

lemma le_digits_small: "d \<in> set (le_digits n x) \<Longrightarrow> d < 256"
  by (induction n arbitrary: x) auto

lemma length_le_digits [simp]: "length (le_digits n x) = n"
  by (induction n arbitrary: x) auto

lemma u32_roundtrip: "u32_of_bytes (bytes_of_u32 w) = w"
proof -
  have "map unat (map of_nat (le_digits 4 (unat w)) :: byte list) = le_digits 4 (unat w)"
    using le_digits_small [of _ 4 "unat w"] by (simp add: map_idI unat_of_nat)
  moreover have "unat w mod 256 ^ 4 = unat w"
    using unsigned_less [of w, where ?'a = nat] by simp
  ultimately show ?thesis
    by (simp add: u32_of_bytes_def bytes_of_u32_def le_value_digits)
qed

lemma length_bytes_of_u32 [simp]: "length (bytes_of_u32 w) = 4"
  by (simp add: bytes_of_u32_def)

lemma read_bytes_append [simp]: "read_bytes (length xs) (xs @ rest) = Some (xs, rest)"
  by (simp add: read_bytes_def)

lemma read_u32_write [simp]: "read_u32 (bytes_of_u32 w @ rest) = Some (w, rest)"
  using read_bytes_append [of "bytes_of_u32 w" rest] by (simp add: read_u32_def u32_roundtrip)

lemma read_f32_enc:
  "codec_wf cd \<Longrightarrow> dec_f32 cd (enc_f32 cd x) = x \<Longrightarrow> read_f32 cd (enc_f32 cd x @ rest) = Some (x, rest)"
  using read_bytes_append [of "enc_f32 cd x" rest] by (simp add: read_f32_def codec_wf_def)

lemma read_f64_enc:
  "codec_wf cd \<Longrightarrow> dec_f64 cd (enc_f64 cd x) = x \<Longrightarrow> read_f64 cd (enc_f64 cd x @ rest) = Some (x, rest)"
  using read_bytes_append [of "enc_f64 cd x" rest] by (simp add: read_f64_def codec_wf_def)

lemma unat_count: "n < 2 ^ 32 \<Longrightarrow> unat (word_of_nat n :: 32 word) = n"
  by (simp add: unat_of_nat)

lemma char_of_byte_of_char [simp]: "char_of_byte (byte_of_char c) = c"
  using nat_of_char_less_256 [of c] by (simp add: char_of_byte_def byte_of_char_def unat_of_nat)

lemma unat_byte_of_char: "unat (byte_of_char c) = of_char c"
  using nat_of_char_less_256 [of c] by (simp add: byte_of_char_def unat_of_nat)

lemma byte_of_char_zero: "byte_of_char c = 0 \<longleftrightarrow> c = CHR 0x00"
proof
  assume "byte_of_char c = 0"
  then have "of_char c = (0::nat)"
    using unat_byte_of_char [of c] by simp
  then have "(of_char c :: nat) = of_char (CHR 0x00)"
    by simp
  then show "c = CHR 0x00"
    by (metis char_of_char)
qed (simp add: byte_of_char_def)

lemma takeWhile_nonzero:
  "CHR 0x00 \<notin> set s \<Longrightarrow> takeWhile (\<lambda>b. b \<noteq> 0) (map byte_of_char s) = map byte_of_char s"
  by (auto simp: byte_of_char_zero)

lemma read_name_write:
  assumes "name_ok s"
  shows "read_name (write_name s @ rest) = Some (s, rest)"
proof -
  have len: "length s < 2 ^ 32" "length s < 250" and nz: "CHR 0x00 \<notin> set s"
    using assms by (simp_all add: name_ok_def)
  have "read_bytes (length s) (map byte_of_char s @ rest) = Some (map byte_of_char s, rest)"
    using read_bytes_append [of "map byte_of_char s" rest] by simp
  with len nz show ?thesis
    by (simp add: read_name_def write_name_def unat_count Let_def comp_def takeWhile_nonzero)
qed

lemma read_list_concat:
  assumes "\<And>x rest. x \<in> set xs \<Longrightarrow> rd (w x @ rest) = Some (x, rest)"
  shows "read_list (length xs) rd (concat (map w xs) @ rest) = Some (xs, rest)"
  using assms by (induction xs) auto

lemma read_vec3_write:
  "codec_wf cd \<Longrightarrow> \<forall>x \<in> set (vec3_vals v). dec_f32 cd (enc_f32 cd x) = x \<Longrightarrow>
   read_vec3 cd (write_vec3 cd v @ rest) = Some (v, rest)"
  by (cases v) (simp add: read_vec3_def read_f32_enc)

lemma read_quat_write:
  "codec_wf cd \<Longrightarrow> \<forall>x \<in> set (quat_vals q). dec_f32 cd (enc_f32 cd x) = x \<Longrightarrow>
   read_quat cd (write_quat cd q @ rest) = Some (q, rest)"
  by (cases q) (simp add: read_quat_def read_f32_enc)

lemma read_key_write:
  assumes "codec_wf cd" "dec_f64 cd (enc_f64 cd (key_time k)) = key_time k"
    "\<And>rest. rv cd (wv cd (key_value k) @ rest) = Some (key_value k, rest)"
  shows "read_key cd rv (write_key cd wv k @ rest) = Some (k, rest)"
  using assms by (cases k) (simp add: read_key_def write_key_def read_f64_enc)

lemma read_track_write:
  assumes "length ks < 2 ^ 32" "\<And>k rest. k \<in> set ks \<Longrightarrow> read_key cd rv (write_key cd wv k @ rest) = Some (k, rest)"
  shows "read_track cd rv (write_track cd wv ks @ rest) = Some (ks, rest)"
proof -
  from read_list_concat [of ks "read_key cd rv" "write_key cd wv" rest] assms(2)
  have "read_list (length ks) (read_key cd rv) (concat (map (write_key cd wv) ks) @ rest) = Some (ks, rest)"
    by blast
  with assms(1) show ?thesis
    by (simp add: read_track_def write_track_def unat_count Let_def)
qed

lemma read_track_keys:
  assumes cd: "codec_wf cd" and len: "length ks < 2 ^ 32"
    and t: "\<And>k. k \<in> set ks \<Longrightarrow> dec_f64 cd (enc_f64 cd (key_time k)) = key_time k"
    and v: "\<And>k r. k \<in> set ks \<Longrightarrow> rv cd (wv cd (key_value k) @ r) = Some (key_value k, r)"
  shows "read_track cd rv (write_track cd wv ks @ rest) = Some (ks, rest)"
  using len by (rule read_track_write) (intro read_key_write [OF cd] t v)

lemma read_channel_write:
  assumes cd: "codec_wf cd" and ok: "channel_ok cd ch"
  shows "read_channel cd (write_channel cd ch @ rest) = Some (ch, rest)"
proof -
  have f32: "\<And>x. x \<in> set (channel_f32s ch) \<Longrightarrow> dec_f32 cd (enc_f32 cd x) = x"
    and f64: "\<And>x. x \<in> set (channel_f64s ch) \<Longrightarrow> dec_f64 cd (enc_f64 cd x) = x"
    and lens: "length (position_keys ch) < 2 ^ 32" "length (rotation_keys ch) < 2 ^ 32"
      "length (scaling_keys ch) < 2 ^ 32"
    using ok by (simp_all add: channel_ok_def)
  have pk: "read_track cd read_vec3 (write_track cd write_vec3 (position_keys ch) @ r) = Some (position_keys ch, r)" for r
    by (rule read_track_keys [OF cd lens(1)])
      (auto intro!: f64 read_vec3_write [OF cd] f32 simp: channel_f64s_def channel_f32s_def)
  have rk: "read_track cd read_quat (write_track cd write_quat (rotation_keys ch) @ r) = Some (rotation_keys ch, r)" for r
    by (rule read_track_keys [OF cd lens(2)])
      (auto intro!: f64 read_quat_write [OF cd] f32 simp: channel_f64s_def channel_f32s_def)
  have sk: "read_track cd read_vec3 (write_track cd write_vec3 (scaling_keys ch) @ r) = Some (scaling_keys ch, r)" for r
    by (rule read_track_keys [OF cd lens(3)])
      (auto intro!: f64 read_vec3_write [OF cd] f32 simp: channel_f64s_def channel_f32s_def)
  have nm: "read_name (write_name (ch_name ch) @ r) = Some (ch_name ch, r)" for r
    using ok by (intro read_name_write) (simp add: channel_ok_def)
  have eta: "\<lparr>ch_name = ch_name ch, position_keys = position_keys ch, rotation_keys = rotation_keys ch,
              scaling_keys = scaling_keys ch\<rparr> = ch"
    by (cases ch) simp
  show ?thesis
    by (simp add: read_channel_def write_channel_def nm pk rk sk eta)
qed

lemma load_ev_read_back:
  assumes cd: "codec_wf cd" and ok: "ev_ok cd ev"
  shows "load_ev cd default_evaluator (save_ev cd ev @ rest) =
           Some (ev\<lparr>play_forward := Some True, last_time := 0,
                    last_positions := replicate (length (channels ev)) (0, 0, 0), transforms := []\<rparr>, rest)"
proof -
  have len: "length (channels ev) < 2 ^ 32"
    using ok by (simp add: ev_ok_def)
  have chs: "read_list (length (channels ev)) (read_channel cd)
               (concat (map (write_channel cd) (channels ev)) @ r) = Some (channels ev, r)" for r
    using ok by (intro read_list_concat read_channel_write [OF cd]) (simp add: ev_ok_def)
  have nm: "read_name (write_name (ev_name ev) @ r) = Some (ev_name ev, r)" for r
    using ok by (intro read_name_write) (simp add: ev_ok_def)
  have "dec_f32 cd (enc_f32 cd (duration ev)) = duration ev"
    "dec_f32 cd (enc_f32 cd (ticks_per_second ev)) = ticks_per_second ev"
    using ok by (simp_all add: ev_ok_def)
  with cd len show ?thesis
    by (simp add: load_ev_def save_ev_def nm chs read_f32_enc unat_count default_evaluator_def)
qed

text \<open>C25: \<open>cAnimEvaluator::Load\<close> of what \<open>Save\<close> wrote, into a default-constructed
  evaluator (as \<open>SceneAnimator::Load\<close> does), gives back the name, the duration, the tick
  rate and every channel with every key, stops exactly at the end of the evaluator's bytes,
  and resets the runtime state: forward playback, time 0, zero cursors, no baked frame.\<close>

theorem load_ev_save:
  assumes cd: "codec_wf cd" and ok: "ev_ok cd ev"
  shows "load_ev cd default_evaluator (save_ev cd ev @ rest) =
           Some (ev\<lparr>play_forward := Some True, last_time := 0,
                    last_positions := replicate (length (channels ev)) (0, 0, 0), transforms := []\<rparr>, rest)"
  by (rule load_ev_read_back [OF cd ok])

text \<open>C26: \<open>Save\<close> writes a name of any length, but \<open>Load\<close> reads it into
  \<open>char temp[250]\<close>: an evaluator whose name has 250 characters or more cannot be loaded
  back (the read overflows the buffer).\<close>

theorem load_ev_long_name:
  assumes "250 \<le> length (ev_name ev)" "length (ev_name ev) < 2 ^ 32"
  shows "load_ev cd ev0 (save_ev cd ev @ rest) = None"
  using assms by (simp add: load_ev_def save_ev_def write_name_def read_name_def unat_count Let_def)

text \<open>C27: a name read back by \<open>Load\<close> ends at its first NUL character
  (\<open>Name = temp\<close> reads a C string), while \<open>Save\<close> writes all of it.\<close>

theorem read_name_nul:
  assumes "length s < 250"
  shows "read_name (write_name s @ rest) = Some (takeWhile (\<lambda>c. c \<noteq> CHR 0x00) s, rest)"
proof -
  have "takeWhile (\<lambda>b. b \<noteq> 0) (map byte_of_char s) = map byte_of_char (takeWhile (\<lambda>c. c \<noteq> CHR 0x00) s)"
    by (induction s) (simp_all add: byte_of_char_zero)
  moreover have "read_bytes (length s) (map byte_of_char s @ rest) = Some (map byte_of_char s, rest)"
    using read_bytes_append [of "map byte_of_char s" rest] by simp
  ultimately show ?thesis
    using assms by (simp add: read_name_def write_name_def unat_count Let_def comp_def)
qed

end
