(* ===== verification/SceneFile.thy ===== *)
theory SceneFile
  imports Persist
begin

text \<open>
  The file of a whole \<open>SceneAnimator\<close> (cAnimationController.cpp lines 294-360 and
  465-500): the skeleton written depth-first by \<open>SaveSkeleton\<close>, the animations, and the
  names of the skinned bones in \<open>Bones\<close> order; \<open>Load\<close> reads them back, rebuilding the
  tree with \<open>LoadSkeleton\<close>, finding every skinned bone by name in \<open>BonesByName\<close>, and
  baking every animation as \<open>Init\<close> does. The recursive walks over the bone pointers are
  partial functions, as in the Skeleton theory.
\<close>

subsection \<open>Matrices\<close>

text \<open>A \<open>mat4\<close> is 16 \<open>float\<close>s in field order (\<open>sizeof(mat4)\<close> bytes).\<close>

fun mat4_vals :: "mat4 \<Rightarrow> real list" where
  "mat4_vals (Mat4 a11 a12 a13 a14 a21 a22 a23 a24 a31 a32 a33 a34 a41 a42 a43 a44) =
     [a11, a12, a13, a14, a21, a22, a23, a24, a31, a32, a33, a34, a41, a42, a43, a44]"

definition mat4_of_list :: "real list \<Rightarrow> mat4" where
  "mat4_of_list xs =
     Mat4 (xs ! 0) (xs ! 1) (xs ! 2) (xs ! 3) (xs ! 4) (xs ! 5) (xs ! 6) (xs ! 7)
          (xs ! 8) (xs ! 9) (xs ! 10) (xs ! 11) (xs ! 12) (xs ! 13) (xs ! 14) (xs ! 15)"

definition write_mat4 :: "scalar_codec \<Rightarrow> mat4 \<Rightarrow> byte list" where
  "write_mat4 cd m = concat (map (enc_f32 cd) (mat4_vals m))"

definition read_mat4 :: "scalar_codec \<Rightarrow> byte list \<Rightarrow> (mat4 \<times> byte list) option" where
  "read_mat4 cd bs = map_option (\<lambda>(xs, r). (mat4_of_list xs, r)) (read_list 16 (read_f32 cd) bs)"

subsection \<open>The skeleton\<close>

text \<open>\<open>SaveSkeleton(file, node)\<close> on each bone of a list of siblings: the name, \<open>Offset\<close>,
  \<open>OriginalLocalTransform\<close>, the number of children, then every child.\<close>

partial_function (option) save_skel :: "scalar_codec \<Rightarrow> heap \<Rightarrow> nat list \<Rightarrow> byte list option" where
  "save_skel cd h ids =
     (case ids of
        [] \<Rightarrow> Some []
      | i # rest \<Rightarrow>
          (case h i of
             None \<Rightarrow> None
           | Some b \<Rightarrow>
               Option.bind (save_skel cd h (children b)) (\<lambda>cs.
                 Option.bind (save_skel cd h rest) (\<lambda>rs.
                   Some (write_name (bone_name b) @ write_mat4 cd (offset b) @
                         write_mat4 cd (original_local b) @
                         bytes_of_u32 (word_of_nat (length (children b))) @ cs @ rs)))))"

text \<open>
  \<open>LoadSkeleton(file, parent)\<close> called \<open>n\<close> times in a row for siblings under \<open>par\<close>:
  a new bone takes the next address; its name (registered in \<open>BonesByName\<close>), offset and
  original local transform are read, the local transform is set to the original, the global
  transform computed; then the children are loaded and become the bone's \<open>Children\<close>
  (pushed one by one in the code; nothing reads them meanwhile). Returns the addresses of
  the siblings.
\<close>

partial_function (option) load_skel ::
  "scalar_codec \<Rightarrow> nat option \<Rightarrow> nat \<Rightarrow> skeleton \<Rightarrow> byte list \<Rightarrow> (nat list \<times> skeleton \<times> byte list) option" where
  "load_skel cd par n sk bs =
     (case n of
        0 \<Rightarrow> Some ([], sk, bs)
      | Suc m \<Rightarrow>
          Option.bind (read_name bs) (\<lambda>(nm, r1).
            Option.bind (read_mat4 cd r1) (\<lambda>(off, r2).
              Option.bind (read_mat4 cd r2) (\<lambda>(orig, r3).
                (let i = next_id sk;
                     b = \<lparr>bone_name = nm, offset = off, local_transform = orig, global_transform = 1,
                          original_local = orig, parent = par, children = []\<rparr>;
                     h1 = (heap sk)(i \<mapsto> b)
                 in Option.bind (calc_global h1 i) (\<lambda>h2.
                      Option.bind (read_u32 r3) (\<lambda>(k, r4).
                        Option.bind (load_skel cd (Some i) (unat k)
                                       (sk\<lparr>heap := h2, next_id := Suc i,
                                           bones_by_name := (bones_by_name sk)(nm \<mapsto> i)\<rparr>) r4)
                          (\<lambda>(cs, sk3, r5).
                            Option.bind (heap sk3 i) (\<lambda>bi.
                              Option.bind (load_skel cd par m
                                             (sk3\<lparr>heap := (heap sk3)(i \<mapsto> bi\<lparr>children := cs\<rparr>)\<rparr>) r5)
                                (\<lambda>(ids, sk4, r6). Some (i # ids, sk4, r6)))))))))))"

subsection \<open>The scene animator\<close>

text \<open>\<open>SceneAnimator::Save\<close>: the skeleton if there is one, the number of animations and
  each animation, then the number of skinned bones and each one's name.\<close>

definition save_sa :: "scalar_codec \<Rightarrow> scene_animator \<Rightarrow> byte list option" where
  "save_sa cd s =
     Option.bind (case root s of None \<Rightarrow> Some [] | Some r \<Rightarrow> save_skel cd (heap (skel s)) [r]) (\<lambda>sk.
       Option.bind (those (map (\<lambda>p. map_option bone_name (heap (skel s) p)) (bone_ptrs s))) (\<lambda>names.
         (let na = (word_of_nat (length (animations s)) :: 32 word);
              nb = (word_of_nat (length (bone_ptrs s)) :: 32 word)
          in Some (sk @ bytes_of_u32 na @ concat (map (save_ev cd) (take (unat na) (animations s))) @
                   bytes_of_u32 nb @ concat (map write_name names)))))"

text \<open>\<open>BonesToIndex[found->first] = i\<close> for each loaded bone name, in order.\<close>

definition index_names :: "(string \<rightharpoonup> nat) \<Rightarrow> string list \<Rightarrow> (string \<rightharpoonup> nat)" where
  "index_names m names = foldl (\<lambda>m (i, nm). m(nm \<mapsto> i)) m (zip [0..<length names] names)"

text \<open>
  \<open>SceneAnimator::Load\<close>: \<open>Release()\<close>; one \<open>LoadSkeleton\<close> (always, even if
  \<open>Save\<close> wrote no skeleton); the animations, each loaded into a default evaluator, their
  names inserted into \<open>AnimationNameToId\<close>, the current index set to 0 if there is one;
  the skinned bones, each looked up by name in \<open>BonesByName\<close> (dereferencing the end
  iterator when absent is undefined); \<open>Transforms\<close> resized; every animation baked.
\<close>

definition load_sa :: "scalar_codec \<Rightarrow> byte list \<Rightarrow> scene_animator \<Rightarrow> scene_animator option" where
  "load_sa cd bs s =
     Option.bind (release s) (\<lambda>s1.
       Option.bind (load_skel cd None 1 (skel s1) bs) (\<lambda>(ids, sk, r1).
         Option.bind (read_u32 r1) (\<lambda>(na, r2).
           Option.bind (read_list (unat na) (load_ev cd default_evaluator) r2) (\<lambda>(anims, r3).
             Option.bind (read_u32 r3) (\<lambda>(nb, r4).
               Option.bind (read_list (unat nb) read_name r4) (\<lambda>(names, r5).
                 Option.bind (those (map (bones_by_name sk) names)) (\<lambda>ptrs.
                   (let ids_map = foldl (\<lambda>m i. map_insert m (ev_name (anims ! i)) (word_of_nat i))
                                    (anim_name_to_id s1) [0..<length anims];
                        s2 = s1\<lparr>skel := sk, root := Some (hd ids), animations := anims,
                                anim_name_to_id := ids_map,
                                current_anim := (if anims \<noteq> [] then 0 else current_anim s1),
                                bone_ptrs := ptrs, bones_to_index := index_names (bones_to_index s1) names\<rparr>
                    in bake_anims [0..<length anims]
                         (s2\<lparr>sa_transforms := resize (length ptrs) (sa_transforms s2)\<rparr>)))))))))"


subsection \<open>Abstract view of a saved skeleton\<close>

text \<open>A bone subtree as \<open>SaveSkeleton\<close> sees it: name, offset, original local transform
  and the subtrees of the children, in \<open>Children\<close> order.\<close>

datatype btree = BTree string mat4 mat4 "btree list"

partial_function (option) trees_of :: "heap \<Rightarrow> nat list \<Rightarrow> btree list option" where
  "trees_of h ids =
     (case ids of
        [] \<Rightarrow> Some []
      | i # rest \<Rightarrow>
          (case h i of
             None \<Rightarrow> None
           | Some b \<Rightarrow>
               Option.bind (trees_of h (children b)) (\<lambda>cs.
                 Option.bind (trees_of h rest) (\<lambda>rs.
                   Some (BTree (bone_name b) (offset b) (original_local b) cs # rs)))))"

fun write_tree :: "scalar_codec \<Rightarrow> btree \<Rightarrow> byte list" where
  "write_tree cd (BTree nm off orig cs) =
     write_name nm @ write_mat4 cd off @ write_mat4 cd orig @
     bytes_of_u32 (word_of_nat (length cs)) @ concat (map (write_tree cd) cs)"

fun tree_ok :: "scalar_codec \<Rightarrow> btree \<Rightarrow> bool" where
  "tree_ok cd (BTree nm off orig cs) \<longleftrightarrow>
     name_ok nm \<and> (\<forall>x \<in> set (mat4_vals off @ mat4_vals orig). dec_f32 cd (enc_f32 cd x) = x) \<and>
     length cs < 2 ^ 32 \<and> (\<forall>c \<in> set cs. tree_ok cd c)"

definition closed :: "nat \<Rightarrow> nat \<Rightarrow> heap \<Rightarrow> bool" where
  "closed lo hi h \<longleftrightarrow> (\<forall>j b. lo \<le> j \<and> j < hi \<and> h j = Some b \<longrightarrow> (\<forall>c \<in> set (children b). lo \<le> c \<and> c < hi))"

text \<open>The outcome of reading a run of siblings into the skeleton \<open>sk\<close>: the new bones occupy
  the fresh addresses \<open>[next_id sk, next_id sk')\<close>, nothing below is changed, the region is
  closed under \<open>Children\<close>, the roots hang under \<open>par\<close>, the subtrees are the saved ones,
  and every new bone is in bind pose with a correct global transform.\<close>

definition loaded :: "nat option \<Rightarrow> skeleton \<Rightarrow> nat list \<Rightarrow> btree list \<Rightarrow> skeleton \<Rightarrow> bool" where
  "loaded par sk ids ts sk' \<longleftrightarrow>
     next_id sk \<le> next_id sk' \<and> tree_wf (next_id sk') (heap sk') \<and>
     (\<forall>j. j < next_id sk \<longrightarrow> heap sk' j = heap sk j) \<and>
     set ids \<subseteq> {next_id sk..<next_id sk'} \<and> closed (next_id sk) (next_id sk') (heap sk') \<and>
     trees_of (heap sk') ids = Some ts \<and>
     (\<forall>i \<in> set ids. \<exists>b. heap sk' i = Some b \<and> parent b = par) \<and>
     (\<forall>j. next_id sk \<le> j \<and> j < next_id sk' \<longrightarrow>
        (\<exists>b. heap sk' j = Some b \<and> local_transform b = original_local b) \<and> global_ok (heap sk') j)"

subsection \<open>Lemmas\<close>

lemma trees_of_Nil [simp]: "trees_of h [] = Some []"
  by (simp add: trees_of.simps)

lemma trees_of_Cons:
  "trees_of h (i # rest) =
     (case h i of
        None \<Rightarrow> None
      | Some b \<Rightarrow> Option.bind (trees_of h (children b)) (\<lambda>cs.
          Option.bind (trees_of h rest) (\<lambda>rs. Some (BTree (bone_name b) (offset b) (original_local b) cs # rs))))"
  by (simp add: trees_of.simps)

lemma save_skel_Nil [simp]: "save_skel cd h [] = Some []"
  by (simp add: save_skel.simps)

lemma save_skel_trees_aux:
  assumes "trees_of h ids = Some ts"
  shows "length ts = length ids \<and> save_skel cd h ids = Some (concat (map (write_tree cd) ts))"
proof (rule trees_of.raw_induct [where P = "\<lambda>h ids ts. length ts = length ids \<and>
    save_skel cd h ids = Some (concat (map (write_tree cd) ts))", OF _ assms])
  fix f h ids ts
  assume IH: "\<And>h ids ts. f h ids = Some ts \<Longrightarrow> length ts = length ids \<and>
      save_skel cd h ids = Some (concat (map (write_tree cd) ts))"
    and eq: "(case ids of [] \<Rightarrow> Some []
        | i # rest \<Rightarrow> (case h i of None \<Rightarrow> None
            | Some b \<Rightarrow> Option.bind (f h (children b)) (\<lambda>cs. Option.bind (f h rest) (\<lambda>rs.
                Some (BTree (bone_name b) (offset b) (original_local b) cs # rs))))) = Some ts"
  show "length ts = length ids \<and> save_skel cd h ids = Some (concat (map (write_tree cd) ts))"
  proof (cases ids)
    case Nil
    with eq show ?thesis by simp
  next
    case (Cons i rest)
    with eq obtain b cs rs where b: "h i = Some b" and cs: "f h (children b) = Some cs"
      and rs: "f h rest = Some rs" and ts: "ts = BTree (bone_name b) (offset b) (original_local b) cs # rs"
      by (auto split: option.splits Option.bind_splits)
    from IH [OF cs] IH [OF rs] b ts Cons show ?thesis
      by (simp add: save_skel.simps [of cd h "i # rest"])
  qed
qed

lemma trees_of_terminates_aux:
  assumes "n - m = k" "tree_wf n h" "\<forall>i \<in> set ids. h i \<noteq> None \<and> m \<le> i"
  shows "\<exists>ts. trees_of h ids = Some ts"
  using assms
proof (induction k arbitrary: m ids rule: less_induct)
  case (less k)
  from less.prems(3) show ?case
  proof (induction ids)
    case Nil
    show ?case
      by simp
  next
    case (Cons i rest)
    from Cons.prems obtain b where b: "h i = Some b" and mi: "m \<le> i"
      by auto
    from less.prems(2) b have "i < n"
      by (auto simp: tree_wf_def)
    have ch: "\<forall>c \<in> set (children b). h c \<noteq> None \<and> Suc i \<le> c"
      using less.prems(2) b by (fastforce simp: tree_wf_def)
    have lt: "n - Suc i < k"
      using mi \<open>i < n\<close> less.prems(1) by simp
    from less.IH [OF lt refl less.prems(2) ch] obtain cs where cs: "trees_of h (children b) = Some cs"
      by blast
    from Cons.IH Cons.prems obtain rs where rs: "trees_of h rest = Some rs"
      by auto
    show ?case
      by (simp add: trees_of_Cons b cs rs)
  qed
qed

lemma trees_of_terminates:
  "tree_wf n h \<Longrightarrow> \<forall>i \<in> set ids. h i \<noteq> None \<Longrightarrow> \<exists>ts. trees_of h ids = Some ts"
  using trees_of_terminates_aux [of n 0 "n - 0" h ids] by simp

lemma trees_of_Some_Cons:
  assumes "(case h i of None \<Rightarrow> None
            | Some b \<Rightarrow> Option.bind (f h (children b)) (\<lambda>cs. Option.bind (f h rest) (\<lambda>rs.
                Some (BTree (bone_name b) (offset b) (original_local b) cs # rs)))) = Some ts"
  obtains b cs rs where "h i = Some b" "f h (children b) = Some cs" "f h rest = Some rs"
    "ts = BTree (bone_name b) (offset b) (original_local b) cs # rs"
  using assms by (cases "h i") (auto simp: bind_eq_Some_conv)

lemma closedD:
  assumes "closed lo hi h" "lo \<le> j" "j < hi" "h j = Some b"
  shows "set (children b) \<subseteq> {lo..<hi}"
proof -
  have "\<forall>c \<in> set (children b). lo \<le> c \<and> c < hi"
    using assms(1) [unfolded closed_def, rule_format, OF conjI [OF assms(2) conjI [OF assms(3) assms(4)]]]
    by blast
  then show ?thesis
    by auto
qed

lemma trees_of_agree:
  assumes "trees_of h ids = Some ts"
  shows "closed lo hi h \<longrightarrow> set ids \<subseteq> {lo..<hi} \<longrightarrow>
         (\<forall>h'. (\<forall>j. lo \<le> j \<and> j < hi \<longrightarrow> h' j = h j) \<longrightarrow> trees_of h' ids = Some ts)"
proof (rule trees_of.raw_induct [where P = "\<lambda>h ids ts. closed lo hi h \<longrightarrow> set ids \<subseteq> {lo..<hi} \<longrightarrow>
    (\<forall>h'. (\<forall>j. lo \<le> j \<and> j < hi \<longrightarrow> h' j = h j) \<longrightarrow> trees_of h' ids = Some ts)", OF _ assms])
  fix f h ids ts
  assume IH: "\<And>h ids ts. f h ids = Some ts \<Longrightarrow> closed lo hi h \<longrightarrow> set ids \<subseteq> {lo..<hi} \<longrightarrow>
      (\<forall>h'. (\<forall>j. lo \<le> j \<and> j < hi \<longrightarrow> h' j = h j) \<longrightarrow> trees_of h' ids = Some ts)"
    and eq: "(case ids of [] \<Rightarrow> Some []
        | i # rest \<Rightarrow> (case h i of None \<Rightarrow> None
            | Some b \<Rightarrow> Option.bind (f h (children b)) (\<lambda>cs. Option.bind (f h rest) (\<lambda>rs.
                Some (BTree (bone_name b) (offset b) (original_local b) cs # rs))))) = Some ts"
  show "closed lo hi h \<longrightarrow> set ids \<subseteq> {lo..<hi} \<longrightarrow>
      (\<forall>h'. (\<forall>j. lo \<le> j \<and> j < hi \<longrightarrow> h' j = h j) \<longrightarrow> trees_of h' ids = Some ts)"
  proof (intro impI allI)
    fix h'
    assume cl: "closed lo hi h" and ids: "set ids \<subseteq> {lo..<hi}" and ag: "\<forall>j. lo \<le> j \<and> j < hi \<longrightarrow> h' j = h j"
    show "trees_of h' ids = Some ts"
    proof (cases ids)
      case Nil
      with eq show ?thesis by simp
    next
      case (Cons i rest)
      from eq Cons have eq': "(case h i of None \<Rightarrow> None
            | Some b \<Rightarrow> Option.bind (f h (children b)) (\<lambda>cs. Option.bind (f h rest) (\<lambda>rs.
                Some (BTree (bone_name b) (offset b) (original_local b) cs # rs)))) = Some ts"
        by simp
      obtain b cs rs where b: "h i = Some b" and cs: "f h (children b) = Some cs"
        and rs: "f h rest = Some rs" and ts: "ts = BTree (bone_name b) (offset b) (original_local b) cs # rs"
        by (rule trees_of_Some_Cons [where h = h and i = i and f = f and rest = rest and ts = ts, OF eq'])
      have i: "lo \<le> i" "i < hi"
        using ids Cons by simp_all
      have sub: "set (children b) \<subseteq> {lo..<hi}"
        by (rule closedD [OF cl i b])
      from IH [OF cs] cl sub have A: "\<forall>h'. (\<forall>j. lo \<le> j \<and> j < hi \<longrightarrow> h' j = h j) \<longrightarrow>
          trees_of h' (children b) = Some cs"
        by simp
      have c': "trees_of h' (children b) = Some cs"
        by (rule A [rule_format, OF ag [rule_format]])
      have "set rest \<subseteq> {lo..<hi}"
        using ids Cons by simp
      with IH [OF rs] cl have B: "\<forall>h'. (\<forall>j. lo \<le> j \<and> j < hi \<longrightarrow> h' j = h j) \<longrightarrow>
          trees_of h' rest = Some rs"
        by simp
      have r': "trees_of h' rest = Some rs"
        by (rule B [rule_format, OF ag [rule_format]])
      have "h' i = Some b"
        using ag i b by simp
      with c' r' ts Cons show ?thesis
        by (simp add: trees_of_Cons)
    qed
  qed
qed

lemma closed_empty [simp]: "closed n n h"
  by (simp add: closed_def)

lemma closed_agree:
  assumes "closed lo hi h" "\<forall>j. lo \<le> j \<and> j < hi \<longrightarrow> h' j = h j"
  shows "closed lo hi h'"
  unfolding closed_def
proof (intro allI impI)
  fix j b
  assume j: "lo \<le> j \<and> j < hi \<and> h' j = Some b"
  with assms(2) have "h j = Some b"
    by metis
  with j have "set (children b) \<subseteq> {lo..<hi}"
    by (intro closedD [OF assms(1), where j = j]) simp_all
  then show "\<forall>c \<in> set (children b). lo \<le> c \<and> c < hi"
    by auto
qed

lemma closed_union:
  assumes "closed lo m h" "closed m hi h" "lo \<le> m" "m \<le> hi"
  shows "closed lo hi h"
  unfolding closed_def
proof (intro allI impI ballI)
  fix j b c
  assume j: "lo \<le> j \<and> j < hi \<and> h j = Some b" and c: "c \<in> set (children b)"
  show "lo \<le> c \<and> c < hi"
  proof (cases "j < m")
    case True
    with j have "set (children b) \<subseteq> {lo..<m}"
      by (intro closedD [OF assms(1), where j = j]) simp_all
    with c assms(4) show ?thesis
      by auto
  next
    case False
    with j have "set (children b) \<subseteq> {m..<hi}"
      by (intro closedD [OF assms(2), where j = j]) simp_all
    with c assms(3) show ?thesis
      by auto
  qed
qed

lemma closed_set_children:
  assumes "closed (Suc i) m h" "set cs \<subseteq> {Suc i..<m}"
  shows "closed i m (h(i \<mapsto> b\<lparr>children := cs\<rparr>))"
  unfolding closed_def
proof (intro allI impI ballI)
  fix j b' c
  assume j: "i \<le> j \<and> j < m \<and> (h(i \<mapsto> b\<lparr>children := cs\<rparr>)) j = Some b'" and c: "c \<in> set (children b')"
  show "i \<le> c \<and> c < m"
  proof (cases "j = i")
    case True
    with j c assms(2) show ?thesis
      by auto
  next
    case False
    with j have "set (children b') \<subseteq> {Suc i..<m}"
      by (intro closedD [OF assms(1), where j = j]) simp_all
    with c show ?thesis
      by auto
  qed
qed

lemma tree_wf_add_leaf:
  assumes wf: "tree_wf n h" and par: "\<forall>q. parent b = Some q \<longrightarrow> h q \<noteq> None" and ch: "children b = []"
  shows "tree_wf (Suc n) (h(n \<mapsto> b))"
  unfolding tree_wf_def
proof (intro allI impI)
  fix j b'
  assume j: "(h(n \<mapsto> b)) j = Some b'"
  have fresh: "\<forall>c. h c \<noteq> None \<longrightarrow> c \<noteq> n"
    using tree_wf_fresh [OF wf] by auto
  show "j < Suc n \<and> (\<forall>q. parent b' = Some q \<longrightarrow> q < j \<and> (h(n \<mapsto> b)) q \<noteq> None) \<and>
      (\<forall>c \<in> set (children b'). j < c \<and> (\<exists>bc. (h(n \<mapsto> b)) c = Some bc \<and> parent bc = Some j))"
  proof (cases "j = n")
    case True
    with j have "b' = b"
      by simp
    moreover have "\<forall>q. parent b = Some q \<longrightarrow> q < n \<and> h q \<noteq> None"
      using par tree_wf_dom [OF wf] by blast
    ultimately show ?thesis
      using True ch by auto
  next
    case False
    with j have hj: "h j = Some b'"
      by simp
    with wf have "j < n" "\<forall>q. parent b' = Some q \<longrightarrow> q < j \<and> h q \<noteq> None"
      "\<forall>c \<in> set (children b'). j < c \<and> (\<exists>bc. h c = Some bc \<and> parent bc = Some j)"
      by (auto simp: tree_wf_def)
    with fresh show ?thesis
      by fastforce
  qed
qed

lemma tree_wf_set_children:
  assumes wf: "tree_wf n h" and b: "h i = Some b"
    and cs: "\<forall>c \<in> set cs. i < c \<and> (\<exists>bc. h c = Some bc \<and> parent bc = Some i)"
  shows "tree_wf n (h(i \<mapsto> b\<lparr>children := cs\<rparr>))"
  unfolding tree_wf_def
proof (intro allI impI)
  fix j b'
  assume j: "(h(i \<mapsto> b\<lparr>children := cs\<rparr>)) j = Some b'"
  let ?h = "h(i \<mapsto> b\<lparr>children := cs\<rparr>)"
  have dom: "\<And>q. (?h q \<noteq> None) = (h q \<noteq> None)"
    using b by auto
  have par: "\<And>q bq. h q = Some bq \<Longrightarrow> \<exists>bq'. ?h q = Some bq' \<and> parent bq' = parent bq"
    using b by auto
  obtain b0 where b0: "h j = Some b0" "parent b' = parent b0"
    "children b' = (if j = i then cs else children b0)"
    using j b by (cases "j = i") auto
  from wf b0(1) have w: "j < n" "\<forall>q. parent b0 = Some q \<longrightarrow> q < j \<and> h q \<noteq> None"
    "\<forall>c \<in> set (children b0). j < c \<and> (\<exists>bc. h c = Some bc \<and> parent bc = Some j)"
    by (auto simp: tree_wf_def)
  have c: "\<forall>c \<in> set (children b'). j < c \<and> (\<exists>bc. ?h c = Some bc \<and> parent bc = Some j)"
  proof
    fix c
    assume "c \<in> set (children b')"
    with b0(3) w(3) cs obtain bc where "j < c" "h c = Some bc" "parent bc = Some j"
      by (cases "j = i") auto
    with par show "j < c \<and> (\<exists>bc. ?h c = Some bc \<and> parent bc = Some j)"
      by fastforce
  qed
  from w(1) w(2) b0(2) dom c show "j < n \<and> (\<forall>q. parent b' = Some q \<longrightarrow> q < j \<and> ?h q \<noteq> None) \<and>
      (\<forall>c \<in> set (children b'). j < c \<and> (\<exists>bc. ?h c = Some bc \<and> parent bc = Some j))"
    by simp
qed

lemma extends_agree: "tree_wf n h \<Longrightarrow> \<forall>j. j < n \<longrightarrow> h' j = h j \<Longrightarrow> extends h h'"
  unfolding extends_def using tree_wf_dom by fastforce

lemma extends_set_children: "h i = Some b \<Longrightarrow> extends h (h(i \<mapsto> b\<lparr>children := cs\<rparr>))"
  by (simp add: extends_def)

lemma trees_of_ConsE:
  assumes "trees_of h (x # xs) = Some a"
  obtains b cs rs where "h x = Some b" "trees_of h (children b) = Some cs" "trees_of h xs = Some rs"
    "a = BTree (bone_name b) (offset b) (original_local b) cs # rs"
  using assms by (cases "h x") (auto simp: trees_of_Cons bind_eq_Some_conv)

lemma trees_of_append:
  "trees_of h xs = Some a \<Longrightarrow> trees_of h ys = Some c \<Longrightarrow> trees_of h (xs @ ys) = Some (a @ c)"
proof (induction xs arbitrary: a)
  case Nil
  then show ?case
    by simp
next
  case (Cons x xs)
  from Cons.prems(1) obtain b cs rs where "h x = Some b" "trees_of h (children b) = Some cs"
    "trees_of h xs = Some rs" "a = BTree (bone_name b) (offset b) (original_local b) cs # rs"
    by (rule trees_of_ConsE)
  with Cons.IH [OF _ Cons.prems(2)] show ?case
    by (simp add: trees_of_Cons)
qed

lemma mat4_of_list_vals [simp]: "mat4_of_list (mat4_vals m) = m"
  by (cases m) (simp add: mat4_of_list_def)

lemma read_mat4_write:
  assumes "codec_wf cd" "\<forall>x \<in> set (mat4_vals m). dec_f32 cd (enc_f32 cd x) = x"
  shows "read_mat4 cd (write_mat4 cd m @ rest) = Some (m, rest)"
proof -
  have "read_list (length (mat4_vals m)) (read_f32 cd) (concat (map (enc_f32 cd) (mat4_vals m)) @ rest) =
      Some (mat4_vals m, rest)"
    by (rule read_list_concat) (simp add: assms read_f32_enc)
  moreover have "length (mat4_vals m) = 16"
    by (cases m) simp
  ultimately show ?thesis
    by (simp add: read_mat4_def write_mat4_def)
qed

lemma loadedD:
  assumes "loaded par sk ids ts sk'"
  shows "next_id sk \<le> next_id sk'" "tree_wf (next_id sk') (heap sk')"
    "\<And>j. j < next_id sk \<Longrightarrow> heap sk' j = heap sk j"
    "set ids \<subseteq> {next_id sk..<next_id sk'}" "closed (next_id sk) (next_id sk') (heap sk')"
    "trees_of (heap sk') ids = Some ts" "\<forall>i \<in> set ids. \<exists>b. heap sk' i = Some b \<and> parent b = par"
    "\<And>j. next_id sk \<le> j \<Longrightarrow> j < next_id sk' \<Longrightarrow>
        (\<exists>b. heap sk' j = Some b \<and> local_transform b = original_local b) \<and> global_ok (heap sk') j"
  using assms unfolding loaded_def by blast+

lemma loaded_append:
  assumes l1: "loaded par sk ids1 ts1 skA" and l2: "loaded par skA ids2 ts2 skB"
  shows "loaded par sk (ids1 @ ids2) (ts1 @ ts2) skB"
proof -
  note A = loadedD [OF l1] and B = loadedD [OF l2]
  have agB: "\<forall>j. next_id sk \<le> j \<and> j < next_id skA \<longrightarrow> heap skB j = heap skA j"
    using B(3) by blast
  have ext: "extends (heap skA) (heap skB)"
    using extends_agree [OF A(2)] B(3) by blast
  have cl: "closed (next_id sk) (next_id skB) (heap skB)"
    using closed_union [OF closed_agree [OF A(5) agB] B(5) A(1) B(1)] .
  have tr1: "trees_of (heap skB) ids1 = Some ts1"
    using trees_of_agree [OF A(6)] A(5) A(4) agB by blast
  have par1: "\<forall>i \<in> set ids1. \<exists>b. heap skB i = Some b \<and> parent b = par"
    using A(7) A(4) B(3) by fastforce
  have reg: "(\<exists>b. heap skB j = Some b \<and> local_transform b = original_local b) \<and> global_ok (heap skB) j"
    if "next_id sk \<le> j" "j < next_id skB" for j
  proof (cases "j < next_id skA")
    case True
    with A(8) [OF that(1)] B(3) global_ok_extends [OF _ ext] show ?thesis
      by fastforce
  next
    case False
    with B(8) that show ?thesis
      by simp
  qed
  show ?thesis
    unfolding loaded_def
    using A(1) B(1) B(2) A(3) B(3) A(4) B(4) cl tr1 B(6) par1 B(7) reg
    by (auto simp: trees_of_append)
qed

text \<open>One bone read by \<open>LoadSkeleton\<close> with its subtree: the fresh bone, its global transform, the
  children loaded below it and then set as its \<open>Children\<close>.\<close>

lemma loaded_single:
  assumes wf: "tree_wf (next_id sk) (heap sk)" and par: "\<forall>q. par = Some q \<longrightarrow> heap sk q \<noteq> None"
    and b: "b = \<lparr>bone_name = nm, offset = off, local_transform = orig, global_transform = 1,
                original_local = orig, parent = par, children = []\<rparr>"
    and h2: "calc_global ((heap sk)(next_id sk \<mapsto> b)) (next_id sk) = Some h2"
    and l1: "loaded (Some (next_id sk)) (sk\<lparr>heap := h2, next_id := Suc (next_id sk),
               bones_by_name := (bones_by_name sk)(nm \<mapsto> next_id sk)\<rparr>) cids cs sk3"
  obtains bi where "heap sk3 (next_id sk) = Some bi"
    "loaded par sk [next_id sk] [BTree nm off orig cs]
       (sk3\<lparr>heap := (heap sk3)(next_id sk \<mapsto> bi\<lparr>children := cids\<rparr>)\<rparr>)"
proof -
  define i where "i = next_id sk"
  define m where "m = next_id sk3"
  have wf1: "tree_wf (Suc i) ((heap sk)(i \<mapsto> b))"
    using tree_wf_add_leaf [OF wf, of b] par b i_def by simp
  from h2 [folded i_def] obtain g where
    h2eq: "h2 = ((heap sk)(i \<mapsto> b))(i \<mapsto> b\<lparr>global_transform := g\<rparr>)"
    by (rule calc_global_SomeD) simp
  note L = loadedD [OF l1, simplified, folded i_def m_def]
  define bi where "bi = b\<lparr>global_transform := g\<rparr>"
  define h3 where "h3 = (heap sk3)(i \<mapsto> bi\<lparr>children := cids\<rparr>)"
  have bi: "heap sk3 i = Some bi"
    using L(3) [of i] h2eq bi_def by simp
  have below: "\<forall>j. j < i \<longrightarrow> h3 j = heap sk j"
    using L(3) h2eq h3_def by simp
  have ag3: "\<forall>j. Suc i \<le> j \<and> j < m \<longrightarrow> h3 j = heap sk3 j"
    by (simp add: h3_def)
  have wf3: "tree_wf m h3"
    unfolding h3_def using L(4) L(7) by (intro tree_wf_set_children [OF L(2) bi]) auto
  have cl3: "closed i m h3"
    unfolding h3_def using L(5) L(4) by (rule closed_set_children)
  have tr3: "trees_of h3 [i] = Some [BTree nm off orig cs]"
  proof -
    have "trees_of h3 cids = Some cs"
      using trees_of_agree [OF L(6)] L(5) L(4) ag3 by blast
    then show ?thesis
      by (simp add: h3_def trees_of_Cons bi_def b)
  qed
  have ext: "extends (heap sk3) h3"
    unfolding h3_def by (rule extends_set_children [of "heap sk3" i bi cids, OF bi])
  have wf2: "tree_wf (Suc i) h2"
    using wf1 tree_wf_shape [OF calc_global_shape [OF h2 [folded i_def]]] by simp
  have e2: "extends h2 (heap sk3)"
    by (rule extends_agree [OF wf2]) (use L(3) in simp)
  have gi: "global_ok h3 i"
  proof -
    have "global_ok h2 i"
      using calc_global_ok [OF h2] i_def by simp
    then have "global_ok (heap sk3) i"
      using global_ok_extends [OF _ e2] h2eq by simp
    then show ?thesis
      using global_ok_extends [OF _ ext] bi by simp
  qed
  have reg: "(\<exists>b. h3 j = Some b \<and> local_transform b = original_local b) \<and> global_ok h3 j"
    if "i \<le> j" "j < m" for j
  proof (cases "j = i")
    case True
    with gi show ?thesis
      by (simp add: h3_def bi_def b)
  next
    case False
    with that have j: "Suc i \<le> j" "j < m"
      by simp_all
    from L(8) [OF j] obtain bj where bj: "heap sk3 j = Some bj" "local_transform bj = original_local bj"
      and g: "global_ok (heap sk3) j"
      by blast
    have "h3 j = Some bj"
      using ag3 j bj by simp
    moreover have "global_ok h3 j"
      using global_ok_extends [OF g ext] bj by simp
    ultimately show ?thesis
      using bj by simp
  qed
  have p: "\<exists>b. h3 i = Some b \<and> parent b = par"
    by (simp add: h3_def bi_def b)
  have n3: "next_id (sk3\<lparr>heap := h3\<rparr>) = m" "heap (sk3\<lparr>heap := h3\<rparr>) = h3"
    by (simp_all add: m_def)
  have fin: "loaded par sk [i] [BTree nm off orig cs] (sk3\<lparr>heap := h3\<rparr>)"
    unfolding loaded_def n3 i_def [symmetric]
    using L(1) wf3 below cl3 tr3 p reg by (intro conjI) simp_all
  from bi fin show ?thesis
    unfolding i_def h3_def by (rule that)
qed

lemma load_skel_0 [simp]: "load_skel cd par 0 sk bs = Some ([], sk, bs)"
  by (simp add: load_skel.simps)

lemma loaded_Nil: "tree_wf (next_id sk) (heap sk) \<Longrightarrow> loaded par sk [] [] sk"
  unfolding loaded_def by auto

lemma load_skel_trees_aux:
  assumes "size_list size ts = k" "codec_wf cd" "\<forall>t \<in> set ts. tree_ok cd t"
    "tree_wf (next_id sk) (heap sk)" "\<forall>q. par = Some q \<longrightarrow> heap sk q \<noteq> None"
  shows "\<exists>ids sk'. load_skel cd par (length ts) sk (concat (map (write_tree cd) ts) @ rest) =
           Some (ids, sk', rest) \<and> loaded par sk ids ts sk'"
  using assms
proof (induction k arbitrary: ts sk par rest rule: less_induct)
  case (less k)
  show ?case
  proof (cases ts)
    case Nil
    with less.prems(4) show ?thesis
      by (simp add: loaded_Nil)
  next
    case (Cons t ts')
    obtain nm off orig cs where t: "t = BTree nm off orig cs"
      by (cases t)
    have ok: "name_ok nm" "\<forall>x \<in> set (mat4_vals off). dec_f32 cd (enc_f32 cd x) = x"
      "\<forall>x \<in> set (mat4_vals orig). dec_f32 cd (enc_f32 cd x) = x"
      "length cs < 2 ^ 32" "\<forall>c \<in> set cs. tree_ok cd c" "\<forall>t \<in> set ts'. tree_ok cd t"
      using less.prems(3) Cons t by simp_all
    define i where "i = next_id sk"
    define b where "b = \<lparr>bone_name = nm, offset = off, local_transform = orig, global_transform = 1,
                          original_local = orig, parent = par, children = []\<rparr>"
    have wf1: "tree_wf (Suc i) ((heap sk)(i \<mapsto> b))"
      using tree_wf_add_leaf [OF less.prems(4), of b] less.prems(5) b_def i_def by simp
    obtain h2 where h2: "calc_global ((heap sk)(i \<mapsto> b)) i = Some h2"
      using calc_global_terminates [OF wf1, of i] by auto
    define sk2 where "sk2 = sk\<lparr>heap := h2, next_id := Suc i, bones_by_name := (bones_by_name sk)(nm \<mapsto> i)\<rparr>"
    have wf2: "tree_wf (next_id sk2) (heap sk2)"
      using wf1 tree_wf_shape [OF calc_global_shape [OF h2]] by (simp add: sk2_def)
    have p2: "\<forall>q. Some i = Some q \<longrightarrow> heap sk2 q \<noteq> None"
      using h2 by (auto simp: sk2_def elim: calc_global_SomeD)
    have lt1: "size_list size cs < k"
      using less.prems(1) Cons t by simp
    obtain cids sk3 where r1: "load_skel cd (Some i) (length cs) sk2
        (concat (map (write_tree cd) cs) @ concat (map (write_tree cd) ts') @ rest) =
        Some (cids, sk3, concat (map (write_tree cd) ts') @ rest)"
      and l1: "loaded (Some i) sk2 cids cs sk3"
      using less.IH [OF lt1 refl less.prems(2) ok(5) wf2 p2] by blast
    obtain bi where bi: "heap sk3 i = Some bi"
      and l1': "loaded par sk [i] [t] (sk3\<lparr>heap := (heap sk3)(i \<mapsto> bi\<lparr>children := cids\<rparr>)\<rparr>)"
      using loaded_single [OF less.prems(4) less.prems(5) refl, of nm off orig h2 cids cs sk3]
        h2 l1 unfolding i_def b_def sk2_def t by blast
    define sk3' where "sk3' = sk3\<lparr>heap := (heap sk3)(i \<mapsto> bi\<lparr>children := cids\<rparr>)\<rparr>"
    note L = loadedD [OF l1' [folded sk3'_def]]
    have p3: "\<forall>q. par = Some q \<longrightarrow> heap sk3' q \<noteq> None"
      using less.prems(5) L(3) tree_wf_dom [OF less.prems(4)] by (metis i_def)
    have lt2: "size_list size ts' < k"
      using less.prems(1) Cons by simp
    obtain ids sk4 where r2: "load_skel cd par (length ts') sk3' (concat (map (write_tree cd) ts') @ rest) =
        Some (ids, sk4, rest)" and l2: "loaded par sk3' ids ts' sk4"
      using less.IH [OF lt2 refl less.prems(2) ok(6) L(2) p3] by blast
    have uc: "unat (word_of_nat (length cs) :: 32 word) = length cs"
      by (rule unat_count [OF ok(4)])
    have eq: "load_skel cd par (Suc (length ts')) sk (write_tree cd t @ concat (map (write_tree cd) ts') @ rest) =
        Some (i # ids, sk4, rest)"
      using h2 r1 r2 bi
      by (subst load_skel.simps)
        (simp add: t ok read_name_write read_mat4_write less.prems(2) uc Let_def
          i_def [symmetric] b_def [symmetric] sk2_def [symmetric] sk3'_def [symmetric])
    have "loaded par sk ([i] @ ids) ([t] @ ts') sk4"
      by (rule loaded_append [OF l1' [folded sk3'_def] l2])
    with eq Cons show ?thesis
      by auto
  qed
qed

lemma read_bytes_length: "read_bytes n bs = Some (xs, r) \<Longrightarrow> length r + n = length bs"
  by (simp add: read_bytes_def split: if_splits) auto

lemma read_list_length:
  assumes "\<And>bs x r. rd bs = Some (x, r) \<Longrightarrow> length r + k \<le> length bs"
  shows "read_list n rd bs = Some (xs, r) \<Longrightarrow> length r + n * k \<le> length bs"
proof (induction n arbitrary: bs xs)
  case 0
  then show ?case
    by simp
next
  case (Suc n)
  from Suc.prems obtain x r1 xs' where "rd bs = Some (x, r1)" "read_list n rd r1 = Some (xs', r)"
    by (auto simp: bind_eq_Some_conv)
  with assms Suc.IH show ?case
    by fastforce
qed

lemma read_name_length: "read_name bs = Some (nm, r) \<Longrightarrow> length r + 4 \<le> length bs"
  by (auto simp: read_name_def read_u32_def bind_eq_Some_conv split: if_splits dest!: read_bytes_length)

lemma read_mat4_length:
  assumes "read_mat4 cd bs = Some (m, r)"
  shows "length r + 64 \<le> length bs"
proof -
  have f: "\<And>bs x r. read_f32 cd bs = Some (x, r) \<Longrightarrow> length r + 4 \<le> length bs"
    by (auto simp: read_f32_def dest!: read_bytes_length)
  from assms obtain xs where "read_list 16 (read_f32 cd) bs = Some (xs, r)"
    by (auto simp: read_mat4_def)
  from read_list_length [OF f this] show ?thesis
    by simp
qed

text \<open>\<open>LoadSkeleton\<close> needs at least the name's length and the two matrices.\<close>

lemma load_skel_short:
  assumes "length bs < 68"
  shows "load_skel cd par (Suc m) sk bs = None"
proof (cases "read_name bs")
  case None
  then show ?thesis
    by (subst load_skel.simps) simp
next
  case (Some p)
  obtain nm r1 where p: "read_name bs = Some (nm, r1)"
    using Some by (cases p) simp
  have "read_mat4 cd r1 = None"
    using read_name_length [OF p] read_mat4_length [of cd r1] assms
    by (cases "read_mat4 cd r1") fastforce+
  with p show ?thesis
    by (subst load_skel.simps) simp
qed

subsection \<open>Properties\<close>

text \<open>C28: \<open>SaveSkeleton\<close> followed by \<open>LoadSkeleton\<close> restores the skeleton. Whatever skeleton
  the reading animator already holds, the bytes saved from the bone \<open>r\<close> load back, leaving
  the rest of the stream unread, into fresh bones that form the same tree of names,
  offsets and original local transforms, are well-formed, in bind pose, and have correct
  global transforms; the old bones are untouched. This holds when every name is shorter than
  the 250-byte read buffer and without NUL, and the float codec round-trips the matrices.\<close>

theorem skeleton_save_load:
  assumes "codec_wf cd" "trees_of (heap sk) [r] = Some ts" "\<forall>t \<in> set ts. tree_ok cd t"
    "tree_wf (next_id sk0) (heap sk0)"
  shows "\<exists>bs ids sk'. save_skel cd (heap sk) [r] = Some bs \<and>
           load_skel cd None 1 sk0 (bs @ rest) = Some (ids, sk', rest) \<and> loaded None sk0 ids ts sk'"
proof -
  from save_skel_trees_aux [OF assms(2), of cd] have len: "length ts = 1"
    and sv: "save_skel cd (heap sk) [r] = Some (concat (map (write_tree cd) ts))"
    by simp_all
  from load_skel_trees_aux [OF refl assms(1) assms(3) assms(4), of None rest] len
  obtain ids sk' where "load_skel cd None 1 sk0 (concat (map (write_tree cd) ts) @ rest) = Some (ids, sk', rest)"
    "loaded None sk0 ids ts sk'"
    by auto
  with sv show ?thesis
    by blast
qed

text \<open>C29: \<open>SaveSkeleton\<close> terminates on a well-formed skeleton: every bone reachable from an
  allocated root is allocated, so the recursion over \<open>Children\<close> ends and writes the
  subtree.\<close>

theorem save_skel_terminates:
  assumes "tree_wf n h" "h r \<noteq> None"
  shows "\<exists>bs ts. trees_of h [r] = Some ts \<and> save_skel cd h [r] = Some bs"
proof -
  have "\<exists>ts. trees_of h [r] = Some ts"
    by (rule trees_of_terminates [OF assms(1)]) (use assms(2) in simp)
  then obtain ts where "trees_of h [r] = Some ts"
    by blast
  with save_skel_trees_aux [OF this, of cd] show ?thesis
    by blast
qed


text \<open>C30: \<open>Save\<close> of an animator without a skeleton writes no skeleton record, but
  \<open>Load\<close> always reads one first: an animator with no skeleton, animations or bones saves
  the eight bytes of the two counts, and \<open>LoadSkeleton\<close> runs off their end, so the file
  cannot be loaded by any animator.\<close>

theorem save_load_no_skeleton:
  assumes "root s = None" "animations s = []" "bone_ptrs s = []"
  shows "\<exists>bs. save_sa cd s = Some bs \<and> length bs = 8 \<and> (\<forall>s'. load_sa cd bs s' = None)"
proof -
  have sv: "save_sa cd s = Some (bytes_of_u32 0 @ bytes_of_u32 0)"
    by (simp add: save_sa_def assms)
  have "load_sa cd (bytes_of_u32 0 @ bytes_of_u32 0) s' = None" for s'
    using load_skel_short [of "bytes_of_u32 0 @ bytes_of_u32 0" cd None 0]
    by (simp add: load_sa_def length_bytes_of_u32 split: option.splits)
  with sv show ?thesis
    by (simp add: length_bytes_of_u32)
qed

end
