(* ===== verification/SceneRoundTrip.thy ===== *)
theory SceneRoundTrip
  imports SceneFile
begin

text \<open>
  The round trip of a whole \<open>SceneAnimator\<close> through \<open>Save\<close> and \<open>Load\<close>. What the file
  carries is the skeleton's saved view (names, offsets, bind poses and child lists), the
  animations' data (name, duration, tick rate, channels) and the names of the skinned bones;
  \<open>Load\<close> then bakes every animation, which rewrites local and global transforms, cursors
  and frames but none of that data.
\<close>

subsection \<open>What the file carries\<close>

definition saved_view :: "heap \<Rightarrow> nat \<Rightarrow> (string \<times> mat4 \<times> mat4 \<times> nat list) option" where
  "saved_view h i = map_option (\<lambda>b. (bone_name b, offset b, original_local b, children b)) (h i)"

definition ev_core :: "anim_evaluator \<Rightarrow> string \<times> f32 \<times> f32 \<times> channel list" where
  "ev_core ev = (ev_name ev, duration ev, ticks_per_second ev, channels ev)"

definition keeps :: "scene_animator \<Rightarrow> scene_animator \<Rightarrow> bool" where
  "keeps s s' \<longleftrightarrow>
     saved_view (heap (skel s')) = saved_view (heap (skel s)) \<and>
     map ev_core (animations s') = map ev_core (animations s) \<and>
     root s' = root s \<and> bone_ptrs s' = bone_ptrs s"

subsection \<open>The bake keeps it\<close>

lemma keeps_refl [simp]: "keeps s s"
  by (simp add: keeps_def)

lemma keeps_trans: "keeps s1 s2 \<Longrightarrow> keeps s2 s3 \<Longrightarrow> keeps s1 s3"
  by (simp add: keeps_def)

lemma saved_view_shape: "shape h' = shape h \<Longrightarrow> saved_view h' = saved_view h"
proof
  fix i
  assume "shape h' = shape h"
  then have "shape h' i = shape h i"
    by simp
  then show "saved_view h' i = saved_view h i"
    by (cases "h i"; cases "h' i") (simp_all add: shape_def saved_view_def)
qed

lemma saved_view_local: "h i = Some b \<Longrightarrow> saved_view (h(i \<mapsto> b\<lparr>local_transform := m\<rparr>)) = saved_view h"
  by (auto simp: saved_view_def)

lemma write_locals_view: "write_locals ws h = Some h' \<Longrightarrow> saved_view h' = saved_view h"
proof (induction ws arbitrary: h)
  case Nil
  then show ?case
    by simp
next
  case (Cons w ws)
  obtain b m where w: "w = (b, m)"
    by (cases w)
  with Cons.prems obtain bn where bn: "h b = Some bn"
    and rest: "write_locals ws (h(b \<mapsto> bn\<lparr>local_transform := m\<rparr>)) = Some h'"
    by (auto split: option.splits)
  from Cons.IH [OF rest] saved_view_local [of h b bn m, OF bn] show ?case
    by (rule trans)
qed

lemma update_list_shape:
  assumes "update_list h ids = Some h'"
  shows "shape h' = shape h"
proof (rule update_list.raw_induct [where P = "\<lambda>h ids h'. shape h' = shape h", OF _ assms])
  fix f h ids h'
  assume IH: "\<And>h ids h'. f h ids = Some h' \<Longrightarrow> shape h' = shape h"
    and eq: "(case ids of [] \<Rightarrow> Some h
        | i # rest \<Rightarrow> (case calc_global h i of None \<Rightarrow> None
            | Some h1 \<Rightarrow> (case h1 i of None \<Rightarrow> None
                | Some b \<Rightarrow> Option.bind (f h1 (children b)) (\<lambda>h2. f h2 rest)))) = Some h'"
  show "shape h' = shape h"
  proof (cases ids)
    case Nil
    with eq show ?thesis
      by simp
  next
    case (Cons i rest)
    with eq have "\<exists>h1 b h2. calc_global h i = Some h1 \<and> h1 i = Some b \<and>
        f h1 (children b) = Some h2 \<and> f h2 rest = Some h'"
      by (auto split: option.splits Option.bind_splits)
    then obtain h1 b h2 where h1: "calc_global h i = Some h1" and hb: "h1 i = Some b"
      and h2: "f h1 (children b) = Some h2" and h3: "f h2 rest = Some h'"
      by blast
    from calc_global_shape [OF h1] IH [OF h2] IH [OF h3] show ?thesis
      by simp
  qed
qed

lemma evaluate_core [simp]: "ev_core (fst (evaluate p bones ev)) = ev_core ev"
  by (simp add: ev_core_def evaluate_eq Let_def split_def)

lemma keeps_calculate:
  assumes "calculate p s = Some s1"
  shows "keeps s s1"
proof (cases "sint (current_anim s) < 0 \<or> index_out_of_range (current_anim s) (animations s)")
  case True
  with assms show ?thesis
    by (simp add: calculate_def)
next
  case False
  let ?i = "size_index (current_anim s)"
  let ?ev = "fst (evaluate p (bones_by_name (skel s)) (animations s ! ?i))"
  have i: "?i < length (animations s)"
    using False by (simp add: index_out_of_range_def)
  from False assms obtain h1 r h2 where w: "write_locals (snd (evaluate p (bones_by_name (skel s)) (animations s ! ?i))) (heap (skel s)) = Some h1"
    and r: "root s = Some r" and u: "update_transforms h1 r = Some h2"
    and s1: "s1 = s\<lparr>animations := (animations s)[?i := ?ev], skel := (skel s)\<lparr>heap := h2\<rparr>\<rparr>"
    by (auto simp: calculate_def split_def Let_def split: Option.bind_splits option.splits)
  have "saved_view h2 = saved_view (heap (skel s))"
    using saved_view_shape [OF update_list_shape [OF u [unfolded update_transforms_def]]] write_locals_view [OF w]
    by simp
  moreover have "map ev_core ((animations s)[?i := ?ev]) = map ev_core (animations s)"
    using i by (simp add: map_update list_update_same_conv)
  ultimately show ?thesis
    by (simp add: keeps_def s1)
qed

lemma keeps_push_frame: "i < length (animations s) \<Longrightarrow> keeps s (push_frame i fr s)"
  by (simp add: keeps_def push_frame_def map_update list_update_same_conv ev_core_def)

lemma keeps_set_current: "keeps s (s\<lparr>current_anim := c\<rparr>)"
  by (simp add: keeps_def)

lemma keeps_length: "keeps s s' \<Longrightarrow> length (animations s') = length (animations s)"
  unfolding keeps_def by (metis length_map)

lemma keeps_core_nth:
  "keeps s s' \<Longrightarrow> i < length (animations s) \<Longrightarrow> ev_core (animations s' ! i) = ev_core (animations s ! i)"
  unfolding keeps_def by (metis length_map nth_map)

lemma bake_loop_keeps:
  assumes "bake_loop i ticks dt s = Some s'"
  shows "i < length (animations s) \<longrightarrow> keeps s s'"
proof (rule bake_loop.raw_induct [where P = "\<lambda>i ticks dt s s'. i < length (animations s) \<longrightarrow> keeps s s'", OF _ assms])
  fix f i ticks dt s s'
  assume IH: "\<And>i ticks dt s s'. f i ticks dt s = Some s' \<Longrightarrow> i < length (animations s) \<longrightarrow> keeps s s'"
    and eq: "(if ticks < duration (animations s ! i)
        then (let dt' = dt + 1 / 30
              in Option.bind (calculate dt' s) (\<lambda>s1.
                   Option.bind (frame_of s1) (\<lambda>fr.
                     f i (ticks + ticks_per_second (animations s1 ! i) / 30) dt' (push_frame i fr s1))))
        else Some s) = Some s'"
  show "i < length (animations s) \<longrightarrow> keeps s s'"
  proof
    assume i: "i < length (animations s)"
    show "keeps s s'"
    proof (cases "ticks < duration (animations s ! i)")
      case False
      with eq show ?thesis
        by simp
    next
      case True
      with eq obtain s1 fr where c: "calculate (dt + 1 / 30) s = Some s1"
        and rec: "f i (ticks + ticks_per_second (animations s1 ! i) / 30) (dt + 1 / 30) (push_frame i fr s1) = Some s'"
        by (auto simp: Let_def split: Option.bind_splits)
      have k1: "keeps s s1"
        by (rule keeps_calculate [OF c])
      then have i1: "i < length (animations s1)"
        using i keeps_length by simp
      have k2: "keeps s1 (push_frame i fr s1)"
        by (rule keeps_push_frame [OF i1])
      have "i < length (animations (push_frame i fr s1))"
        using i1 by (simp add: push_frame_def)
      with IH [OF rec] have "keeps (push_frame i fr s1) s'"
        by simp
      with k1 k2 show ?thesis
        by (blast intro: keeps_trans)
    qed
  qed
qed


subsection \<open>Baking every animation\<close>

lemma sint_of_nat_32: "i < 2 ^ 31 \<Longrightarrow> sint (word_of_nat i :: 32 word) = int i"
  by (simp add: signed_of_nat signed_take_bit_int_eq_self)

lemma set_anim_index_nat:
  assumes "anim_ok s" "i < length (animations s)"
  shows "snd (set_anim_index (word_of_nat i) s) = s\<lparr>current_anim := word_of_nat i\<rparr> \<and>
         anim_ok (s\<lparr>current_anim := word_of_nat i\<rparr>)"
proof -
  have len: "length (animations s) < 2 ^ 31"
    using assms(1) by (simp add: anim_ok_def)
  then have si: "sint (word_of_nat i :: 32 word) = int i"
    using assms(2) by (intro sint_of_nat_32) simp
  have "\<not> index_out_of_range (word_of_nat i) (animations s)"
    using len assms(2) by (simp add: index_out_of_range_iff si)
  moreover have "anim_ok (s\<lparr>current_anim := word_of_nat i\<rparr>)"
    using anim_ok_set_current [OF assms(1)] si assms(2) by simp
  ultimately show ?thesis
    by (simp add: set_anim_index_def)
qed

lemma bake_anims_ok:
  assumes "anim_ok s" "\<forall>i \<in> set ids. i < length (animations s) \<and> 0 < ticks_per_second (animations s ! i)"
  shows "\<exists>s'. bake_anims ids s = Some s' \<and> anim_ok s' \<and> keeps s s'"
  using assms
proof (induction ids arbitrary: s)
  case Nil
  then show ?case
    by simp
next
  case (Cons i ids)
  let ?s1 = "s\<lparr>current_anim := word_of_nat i\<rparr>"
  have i: "i < length (animations s)" "0 < ticks_per_second (animations s ! i)"
    using Cons.prems(2) by simp_all
  from set_anim_index_nat [OF Cons.prems(1) i(1)] have sa: "snd (set_anim_index (word_of_nat i) s) = ?s1"
    and ok1: "anim_ok ?s1"
    by simp_all
  have i1: "i < length (animations ?s1)" "0 < ticks_per_second (animations ?s1 ! i)"
    using i by simp_all
  from bake_loop_frames_aux [OF refl ok1 i1, where ticks = 0 and dt = 0] obtain s2 where b: "bake_loop i 0 0 ?s1 = Some s2"
    and ok2: "anim_ok s2"
    by blast
  have k2: "keeps s s2"
    using bake_loop_keeps [OF b] i(1) keeps_trans [OF keeps_set_current] by simp
  have "\<forall>j \<in> set ids. j < length (animations s2) \<and> 0 < ticks_per_second (animations s2 ! j)"
  proof
    fix j
    assume j: "j \<in> set ids"
    then have "j < length (animations s)" "0 < ticks_per_second (animations s ! j)"
      using Cons.prems(2) by simp_all
    with keeps_length [OF k2] keeps_core_nth [OF k2] show "j < length (animations s2) \<and> 0 < ticks_per_second (animations s2 ! j)"
      by (simp add: ev_core_def)
  qed
  from Cons.IH [OF ok2 this] obtain s3 where "bake_anims ids s2 = Some s3" "anim_ok s3" "keeps s2 s3"
    by blast
  with sa b k2 show ?case
    by (auto intro: keeps_trans)
qed


subsection \<open>Names registered by \<open>LoadSkeleton\<close>\<close>

definition fresh :: "skeleton \<Rightarrow> bool" where
  "fresh sk \<longleftrightarrow> (\<forall>j. next_id sk \<le> j \<longrightarrow> heap sk j = None)"

definition registers :: "skeleton \<Rightarrow> skeleton \<Rightarrow> bool" where
  "registers sk sk' \<longleftrightarrow> next_id sk \<le> next_id sk' \<and>
     (\<forall>j b. heap sk j = Some b \<longrightarrow> (\<exists>b'. heap sk' j = Some b' \<and> bone_name b' = bone_name b)) \<and>
     dom (bones_by_name sk) \<subseteq> dom (bones_by_name sk') \<and> (names_ok sk \<longrightarrow> names_ok sk') \<and>
     (\<forall>j. next_id sk \<le> j \<and> j < next_id sk' \<longrightarrow>
        (\<exists>b. heap sk' j = Some b \<and> bone_name b \<in> dom (bones_by_name sk')))"

lemma registers_refl: "registers sk sk"
  by (auto simp: registers_def)

lemma registers_trans:
  assumes "registers s1 s2" "registers s2 s3"
  shows "registers s1 s3"
proof -
  have keep: "\<exists>b'. heap s3 j = Some b' \<and> bone_name b' = bone_name b" if "heap s2 j = Some b" for j b
    using assms(2) that by (simp add: registers_def)
  have reg: "\<exists>b. heap s3 j = Some b \<and> bone_name b \<in> dom (bones_by_name s3)"
    if "next_id s1 \<le> j" "j < next_id s3" for j
  proof (cases "j < next_id s2")
    case True
    have "\<forall>j. next_id s1 \<le> j \<and> j < next_id s2 \<longrightarrow>
        (\<exists>b. heap s2 j = Some b \<and> bone_name b \<in> dom (bones_by_name s2))"
      using assms(1) by (simp add: registers_def)
    with True that obtain b where hb: "heap s2 j = Some b" and nb: "bone_name b \<in> dom (bones_by_name s2)"
      by blast
    from keep [OF hb] obtain b' where "heap s3 j = Some b'" "bone_name b' = bone_name b"
      by blast
    moreover have "dom (bones_by_name s2) \<subseteq> dom (bones_by_name s3)"
      using assms(2) by (simp add: registers_def)
    ultimately show ?thesis
      using nb by auto
  next
    case False
    with assms(2) that show ?thesis
      by (simp add: registers_def)
  qed
  have "\<forall>j b. heap s1 j = Some b \<longrightarrow> (\<exists>b'. heap s3 j = Some b' \<and> bone_name b' = bone_name b)"
    using assms(1) keep by (fastforce simp: registers_def)
  with assms reg show ?thesis
    unfolding registers_def by (meson order_trans)
qed

lemma registers_new:
  assumes "fresh sk" and h2: "calc_global ((heap sk)(next_id sk \<mapsto> b)) (next_id sk) = Some h2"
    and nm: "bone_name b = nm"
  shows "registers sk (sk\<lparr>heap := h2, next_id := Suc (next_id sk), bones_by_name := (bones_by_name sk)(nm \<mapsto> next_id sk)\<rparr>) \<and>
         fresh (sk\<lparr>heap := h2, next_id := Suc (next_id sk), bones_by_name := (bones_by_name sk)(nm \<mapsto> next_id sk)\<rparr>)"
proof -
  from h2 obtain g where h2eq: "h2 = ((heap sk)(next_id sk \<mapsto> b))(next_id sk \<mapsto> b\<lparr>global_transform := g\<rparr>)"
    by (rule calc_global_SomeD) simp
  have none: "heap sk (next_id sk) = None"
    using assms(1) by (simp add: fresh_def)
  have nb: "names_ok sk \<Longrightarrow> bones_by_name sk n \<noteq> Some (next_id sk)" for n
    using none unfolding names_ok_def by (metis option.distinct(1))
  show ?thesis
    using assms(1) none nm nb unfolding registers_def fresh_def names_ok_def
    by (auto simp: h2eq)
qed

lemma registers_children:
  assumes "heap sk i = Some bi" "i < next_id sk" "fresh sk"
  shows "registers sk (sk\<lparr>heap := (heap sk)(i \<mapsto> bi\<lparr>children := cs\<rparr>)\<rparr>) \<and>
         fresh (sk\<lparr>heap := (heap sk)(i \<mapsto> bi\<lparr>children := cs\<rparr>)\<rparr>)"
  using assms unfolding registers_def fresh_def names_ok_def by auto (metis option.inject)

lemma load_skel_registers:
  assumes "load_skel cd par n sk bs = Some (ids, sk', r)"
  shows "fresh sk \<longrightarrow> registers sk sk' \<and> fresh sk'"
proof -
  have "fresh sk \<longrightarrow> registers sk (fst (snd (ids, sk', r))) \<and> fresh (fst (snd (ids, sk', r)))"
  proof (rule load_skel.raw_induct [where P = "\<lambda>cd par n sk bs x. fresh sk \<longrightarrow>
      registers sk (fst (snd x)) \<and> fresh (fst (snd x))", OF _ assms], goal_cases)
    case (1 f cd par n sk bs x)
    show ?case
    proof (cases n)
      case 0
      with "1"(2) have "x = ([], sk, bs)"
        by simp
      then show ?thesis
        by (simp add: registers_refl)
    next
      case (Suc m)
      have "\<exists>nm off orig h2 k r4 cs sk3 r5 bi ids sk4 r6.
          calc_global ((heap sk)(next_id sk \<mapsto> \<lparr>bone_name = nm, offset = off, local_transform = orig,
              global_transform = 1, original_local = orig, parent = par, children = []\<rparr>)) (next_id sk) = Some h2 \<and>
          f cd (Some (next_id sk)) (unat (k :: 32 word)) (sk\<lparr>heap := h2, next_id := Suc (next_id sk),
              bones_by_name := (bones_by_name sk)(nm \<mapsto> next_id sk)\<rparr>) r4 = Some (cs, sk3, r5) \<and>
          heap sk3 (next_id sk) = Some bi \<and>
          f cd par m (sk3\<lparr>heap := (heap sk3)(next_id sk \<mapsto> bi\<lparr>children := cs\<rparr>)\<rparr>) r5 = Some (ids, sk4, r6) \<and>
          x = (next_id sk # ids, sk4, r6)"
        using "1"(2) Suc by (clarsimp simp: Let_def bind_eq_Some_conv split: prod.splits) blast
      then obtain nm off orig h2 k r4 cs sk3 r5 bi ids sk4 r6 where
        h2: "calc_global ((heap sk)(next_id sk \<mapsto> \<lparr>bone_name = nm, offset = off, local_transform = orig,
              global_transform = 1, original_local = orig, parent = par, children = []\<rparr>)) (next_id sk) = Some h2"
        and c1: "f cd (Some (next_id sk)) (unat (k :: 32 word)) (sk\<lparr>heap := h2, next_id := Suc (next_id sk),
              bones_by_name := (bones_by_name sk)(nm \<mapsto> next_id sk)\<rparr>) r4 = Some (cs, sk3, r5)"
        and bi: "heap sk3 (next_id sk) = Some bi"
        and c2: "f cd par m (sk3\<lparr>heap := (heap sk3)(next_id sk \<mapsto> bi\<lparr>children := cs\<rparr>)\<rparr>) r5 = Some (ids, sk4, r6)"
        and x: "x = (next_id sk # ids, sk4, r6)"
        by blast
      show ?thesis
      proof
        assume fr: "fresh sk"
        have R1: "registers sk (sk\<lparr>heap := h2, next_id := Suc (next_id sk),
              bones_by_name := (bones_by_name sk)(nm \<mapsto> next_id sk)\<rparr>) \<and>
            fresh (sk\<lparr>heap := h2, next_id := Suc (next_id sk),
              bones_by_name := (bones_by_name sk)(nm \<mapsto> next_id sk)\<rparr>)"
          by (rule registers_new [OF fr h2]) simp
        from "1"(1) [OF c1] R1 have R2: "registers (sk\<lparr>heap := h2, next_id := Suc (next_id sk),
              bones_by_name := (bones_by_name sk)(nm \<mapsto> next_id sk)\<rparr>) sk3" "fresh sk3"
          by simp_all
        have lt: "next_id sk < next_id sk3"
          using R2(1) by (simp add: registers_def)
        note R3 = registers_children [OF bi lt R2(2), of cs]
        from "1"(1) [OF c2] R3 have R4: "registers (sk3\<lparr>heap := (heap sk3)(next_id sk \<mapsto> bi\<lparr>children := cs\<rparr>)\<rparr>) sk4" "fresh sk4"
          by simp_all
        have "registers sk sk4"
          using registers_trans [OF registers_trans [OF registers_trans [OF conjunct1 [OF R1] R2(1)] conjunct1 [OF R3]] R4(1)] .
        with R4(2) x show "registers sk (fst (snd x)) \<and> fresh (fst (snd x))"
          by simp
      qed
    qed
  qed
  then show ?thesis
    by simp
qed


subsection \<open>Bone names in the saved trees\<close>

fun tree_names :: "btree \<Rightarrow> string set" where
  "tree_names (BTree nm off orig cs) = insert nm (\<Union>c \<in> set cs. tree_names c)"

definition forest_names :: "btree list \<Rightarrow> string set" where
  "forest_names ts = (\<Union>t \<in> set ts. tree_names t)"

declare tree_names.simps [simp del]

lemma forest_names_simps [simp]:
  "forest_names [] = {}" "forest_names (t # ts) = tree_names t \<union> forest_names ts"
  "tree_names (BTree nm off orig cs) = insert nm (forest_names cs)"
  by (simp_all add: forest_names_def tree_names.simps)

lemma tree_names_sub: "t \<in> set ts \<Longrightarrow> tree_names t \<subseteq> forest_names ts"
  by (auto simp: forest_names_def)

lemma tree_ok_names: "tree_ok cd t \<Longrightarrow> nm \<in> tree_names t \<Longrightarrow> name_ok nm"
proof (induction t)
  case (BTree n off orig cs)
  then show ?case
    by (auto simp: forest_names_def)
qed

lemma trees_of_mem:
  assumes "trees_of h ids = Some ts" "j \<in> set ids"
  shows "\<exists>b cs. h j = Some b \<and> trees_of h (children b) = Some cs \<and>
           BTree (bone_name b) (offset b) (original_local b) cs \<in> set ts"
  using assms
proof (induction ids arbitrary: ts)
  case Nil
  then show ?case
    by simp
next
  case (Cons i ids)
  from Cons.prems(1) obtain b cs rs where "h i = Some b" "trees_of h (children b) = Some cs"
    "trees_of h ids = Some rs" "ts = BTree (bone_name b) (offset b) (original_local b) cs # rs"
    by (rule trees_of_ConsE)
  with Cons.IH Cons.prems(2) show ?case
    by auto
qed

lemma subtree_names:
  assumes "trees_of h ids = Some ts" "p \<in> subtree h (set ids)"
  shows "\<exists>b cs. h p = Some b \<and> trees_of h (children b) = Some cs \<and>
           insert (bone_name b) (forest_names cs) \<subseteq> forest_names ts"
  using assms(2)
proof (induction rule: subtree.induct)
  case (root i)
  from trees_of_mem [OF assms(1) root] obtain b cs where "h i = Some b"
    "trees_of h (children b) = Some cs" "BTree (bone_name b) (offset b) (original_local b) cs \<in> set ts"
    by blast
  then show ?case
    using tree_names_sub [of "BTree (bone_name b) (offset b) (original_local b) cs" ts] by auto
next
  case (child j b c)
  from child.IH obtain bj cs where bj: "h j = Some bj" and cs: "trees_of h (children bj) = Some cs"
    and sub: "insert (bone_name bj) (forest_names cs) \<subseteq> forest_names ts"
    by blast
  from bj child.hyps(2) have "bj = b"
    by simp
  from trees_of_mem [OF cs] child.hyps(3) this obtain bc ccs where "h c = Some bc"
    "trees_of h (children bc) = Some ccs" "BTree (bone_name bc) (offset bc) (original_local bc) ccs \<in> set cs"
    by blast
  with sub tree_names_sub [of "BTree (bone_name bc) (offset bc) (original_local bc) ccs" cs] show ?case
    by auto
qed

lemma trees_of_names_region:
  assumes "trees_of h ids = Some ts"
  shows "closed lo hi h \<longrightarrow> set ids \<subseteq> {lo..<hi} \<longrightarrow>
           forest_names ts \<subseteq> {nm. \<exists>j b. lo \<le> j \<and> j < hi \<and> h j = Some b \<and> bone_name b = nm}"
proof (rule trees_of.raw_induct [where P = "\<lambda>h ids ts. closed lo hi h \<longrightarrow> set ids \<subseteq> {lo..<hi} \<longrightarrow>
    forest_names ts \<subseteq> {nm. \<exists>j b. lo \<le> j \<and> j < hi \<and> h j = Some b \<and> bone_name b = nm}", OF _ assms],
    goal_cases)
  case (1 f h ids ts)
  show ?case
  proof (intro impI)
    assume cl: "closed lo hi h" and ids: "set ids \<subseteq> {lo..<hi}"
    show "forest_names ts \<subseteq> {nm. \<exists>j b. lo \<le> j \<and> j < hi \<and> h j = Some b \<and> bone_name b = nm}"
    proof (cases ids)
      case Nil
      with "1"(2) show ?thesis
        by simp
    next
      case (Cons i rest)
      from "1"(2) Cons have eq': "(case h i of None \<Rightarrow> None
            | Some b \<Rightarrow> Option.bind (f h (children b)) (\<lambda>cs. Option.bind (f h rest) (\<lambda>rs.
                Some (BTree (bone_name b) (offset b) (original_local b) cs # rs)))) = Some ts"
        by simp
      obtain b cs rs where b: "h i = Some b" and cs: "f h (children b) = Some cs"
        and rs: "f h rest = Some rs" and ts: "ts = BTree (bone_name b) (offset b) (original_local b) cs # rs"
        by (rule trees_of_Some_Cons [where h = h and i = i and f = f and rest = rest and ts = ts, OF eq'])
      have i: "lo \<le> i" "i < hi"
        using ids Cons by simp_all
      have "set (children b) \<subseteq> {lo..<hi}"
        by (rule closedD [OF cl i b])
      with "1"(1) [OF cs] cl have A: "forest_names cs \<subseteq> {nm. \<exists>j b. lo \<le> j \<and> j < hi \<and> h j = Some b \<and> bone_name b = nm}"
        by simp
      have "set rest \<subseteq> {lo..<hi}"
        using ids Cons by simp
      with "1"(1) [OF rs] cl have B: "forest_names rs \<subseteq> {nm. \<exists>j b. lo \<le> j \<and> j < hi \<and> h j = Some b \<and> bone_name b = nm}"
        by simp
      from A B i b show ?thesis
        by (auto simp: ts)
    qed
  qed
qed

lemma those_Some_map: "those (map f xs) = Some ys \<Longrightarrow> ys = map (\<lambda>x. the (f x)) xs \<and> (\<forall>x \<in> set xs. f x \<noteq> None)"
  by (induction xs arbitrary: ys) (auto split: option.splits)

lemma saved_view_name:
  "saved_view h' = saved_view h \<Longrightarrow> map_option bone_name (h' p) = map_option bone_name (h p)"
  by (drule fun_cong [of _ _ p]) (cases "h p"; cases "h' p"; simp add: saved_view_def)

lemma trees_of_view:
  assumes "trees_of h ids = Some ts"
  shows "saved_view h' = saved_view h \<longrightarrow> trees_of h' ids = Some ts"
proof (rule trees_of.raw_induct [where P = "\<lambda>h ids ts. saved_view h' = saved_view h \<longrightarrow> trees_of h' ids = Some ts",
    OF _ assms], goal_cases)
  case (1 f h ids ts)
  show ?case
  proof
    assume v: "saved_view h' = saved_view h"
    show "trees_of h' ids = Some ts"
    proof (cases ids)
      case Nil
      with "1"(2) show ?thesis
        by simp
    next
      case (Cons i rest)
      from "1"(2) Cons have eq': "(case h i of None \<Rightarrow> None
            | Some b \<Rightarrow> Option.bind (f h (children b)) (\<lambda>cs. Option.bind (f h rest) (\<lambda>rs.
                Some (BTree (bone_name b) (offset b) (original_local b) cs # rs)))) = Some ts"
        by simp
      obtain b cs rs where b: "h i = Some b" and cs: "f h (children b) = Some cs"
        and rs: "f h rest = Some rs" and ts: "ts = BTree (bone_name b) (offset b) (original_local b) cs # rs"
        by (rule trees_of_Some_Cons [where h = h and i = i and f = f and rest = rest and ts = ts, OF eq'])
      from fun_cong [OF v, of i] b obtain b' where b': "h' i = Some b'" "bone_name b' = bone_name b"
        "offset b' = offset b" "original_local b' = original_local b" "children b' = children b"
        by (cases "h' i") (auto simp: saved_view_def)
      from "1"(1) [OF cs] "1"(1) [OF rs] v b' ts Cons show ?thesis
        by (simp add: trees_of_Cons)
    qed
  qed
qed


subsection \<open>Reading the animations and the bone names back\<close>

text \<open>An evaluator as \<open>Load\<close> returns it: the saved data, with forward playback, time 0,
  zero cursors and no baked frame.\<close>

definition ev_reset :: "anim_evaluator \<Rightarrow> anim_evaluator" where
  "ev_reset ev = ev\<lparr>play_forward := Some True, last_time := 0,
                    last_positions := replicate (length (channels ev)) (0, 0, 0), transforms := []\<rparr>"

lemma ev_core_reset [simp]: "ev_core (ev_reset ev) = ev_core ev"
  by (simp add: ev_core_def ev_reset_def)

lemma ev_inv_reset: "ev_inv bones (ev_reset ev)"
  by (simp add: ev_inv_def ev_reset_def cursor_ok_def)

lemma read_list_concat_map:
  assumes "\<And>x rest. x \<in> set xs \<Longrightarrow> rd (w x @ rest) = Some (g x, rest)"
  shows "read_list (length xs) rd (concat (map w xs) @ rest) = Some (map g xs, rest)"
  using assms by (induction xs) auto

lemma load_evs:
  assumes "codec_wf cd" "\<forall>ev \<in> set evs. ev_ok cd ev"
  shows "read_list (length evs) (load_ev cd default_evaluator) (concat (map (save_ev cd) evs) @ rest) =
           Some (map ev_reset evs, rest)"
  by (rule read_list_concat_map) (use assms in \<open>simp add: load_ev_read_back ev_reset_def\<close>)

lemma read_names:
  assumes "\<forall>nm \<in> set names. name_ok nm"
  shows "read_list (length names) read_name (concat (map write_name names)) = Some (names, [])"
  using read_list_concat [of names read_name write_name "[]"] assms by (simp add: read_name_write)

lemma ran_map_insert: "ran (map_insert m k v) \<subseteq> insert v (ran m)"
  by (auto simp: map_insert_def ran_def split: option.splits)

lemma ran_name_ids:
  "ran (foldl (\<lambda>m i. map_insert m (f i) (word_of_nat i)) m0 [0..<n]) \<subseteq>
     ran m0 \<union> {w. \<exists>i < n. w = word_of_nat i}"
proof (induction n)
  case 0
  then show ?case
    by simp
next
  case (Suc n)
  then show ?case
    using ran_map_insert [of "foldl (\<lambda>m i. map_insert m (f i) (word_of_nat i)) m0 [0..<n]" "f n" "word_of_nat n"]
    by (auto simp del: upt_Suc simp: foldl_upt_Suc less_Suc_eq)
qed


subsection \<open>The two sides of the round trip\<close>

lemma save_sa_bytes:
  assumes ok: "anim_ok s" and r: "root s = Some r" and tr: "trees_of (heap (skel s)) [r] = Some ts"
  shows "save_sa cd s = Some (concat (map (write_tree cd) ts) @
           bytes_of_u32 (word_of_nat (length (animations s))) @ concat (map (save_ev cd) (animations s)) @
           bytes_of_u32 (word_of_nat (length (bone_ptrs s))) @
           concat (map write_name (map (\<lambda>p. the (map_option bone_name (heap (skel s) p))) (bone_ptrs s))))"
proof -
  have live: "\<forall>p \<in> set (bone_ptrs s). map_option bone_name (heap (skel s) p) \<noteq> None"
    using ok by (simp add: anim_ok_def)
  from those_map_Some [OF live] obtain ys where "those (map (\<lambda>p. map_option bone_name (heap (skel s) p)) (bone_ptrs s)) = Some ys"
    by blast
  moreover from those_Some_map [OF this]
  have "ys = map (\<lambda>p. the (map_option bone_name (heap (skel s) p))) (bone_ptrs s)"
    by blast
  moreover have "length (animations s) < 2 ^ 32"
    using ok by (simp add: anim_ok_def)
  ultimately show ?thesis
    using conjunct2 [OF save_skel_trees_aux [OF tr, of cd]] r
    by (simp add: save_sa_def unat_count)
qed

lemma anim_ok_loaded_state:
  assumes wf: "tree_wf (next_id sk) (heap sk)" and r: "heap sk r \<noteq> None" and nm: "names_ok sk"
    and ptrs: "set ptrs \<subseteq> ran (bones_by_name sk)" and ne: "evs \<noteq> []" and len: "length evs < 2 ^ 31"
  shows "anim_ok (new_animator\<lparr>skel := sk, root := Some r, animations := map ev_reset evs,
     anim_name_to_id := foldl (\<lambda>m i. map_insert m (f i) (word_of_nat i)) Map.empty [0..<length evs],
     current_anim := 0, bone_ptrs := ptrs, bones_to_index := bti, sa_transforms := resize (length ptrs) []\<rparr>)"
proof -
  have live: "\<forall>b \<in> ran (bones_by_name sk). heap sk b \<noteq> None"
    using nm by (auto simp: names_ok_def ran_def)
  have ids: "\<forall>i \<in> ran (foldl (\<lambda>m i. map_insert m (f i) (word_of_nat i)) (Map.empty :: string \<rightharpoonup> 32 word) [0..<length evs]).
      0 \<le> sint i \<and> nat (sint i) < length evs"
  proof
    fix w
    assume "w \<in> ran (foldl (\<lambda>m i. map_insert m (f i) (word_of_nat i)) (Map.empty :: string \<rightharpoonup> 32 word) [0..<length evs])"
    with ran_name_ids [of f Map.empty "length evs"] obtain i where i: "i < length evs" and w: "w = word_of_nat i"
      by auto
    have si: "sint (word_of_nat i :: 32 word) = int i"
      using i len by (intro sint_of_nat_32) simp
    show "0 \<le> sint w \<and> nat (sint w) < length evs"
      unfolding w si using i by simp
  qed
  have cv: "\<not> (sint (0 :: 32 word) < 0 \<or> index_out_of_range 0 (map ev_reset evs))"
    using ne len by (simp add: index_out_of_range_iff)
  show ?thesis
    unfolding anim_ok_def current_valid_def
    using wf r live ptrs ids cv len
    by (auto simp: new_animator_def resize_def ev_inv_reset)
qed


lemma load_sa_state:
  assumes cd: "codec_wf cd" and ok: "anim_ok s" and r: "root s = Some r"
    and tr: "trees_of (heap (skel s)) [r] = Some ts" and tok: "\<forall>t \<in> set ts. tree_ok cd t"
    and evs: "\<forall>ev \<in> set (animations s). ev_ok cd ev" and ne: "animations s \<noteq> []"
    and sub: "set (bone_ptrs s) \<subseteq> subtree (heap (skel s)) {r}" and nb: "length (bone_ptrs s) < 2 ^ 32"
  shows "\<exists>bs s2. save_sa cd s = Some bs \<and> load_sa cd bs new_animator = bake_anims [0..<length (animations s)] s2 \<and>
           anim_ok s2 \<and> (\<exists>r'. root s2 = Some r' \<and> trees_of (heap (skel s2)) [r'] = Some ts) \<and>
           animations s2 = map ev_reset (animations s) \<and>
           map (\<lambda>p. map_option bone_name (heap (skel s2) p)) (bone_ptrs s2) =
             map (\<lambda>p. map_option bone_name (heap (skel s) p)) (bone_ptrs s)"
proof -
  let ?h = "heap (skel s)"
  define names where "names = map (\<lambda>p. the (map_option bone_name (?h p))) (bone_ptrs s)"
  define REST where "REST = bytes_of_u32 (word_of_nat (length (animations s))) @
      concat (map (save_ev cd) (animations s)) @ bytes_of_u32 (word_of_nat (length (bone_ptrs s))) @
      concat (map write_name names)"
  have sv: "save_sa cd s = Some (concat (map (write_tree cd) ts) @ REST)"
    using save_sa_bytes [OF ok r tr, of cd] by (simp add: REST_def names_def)
  have live: "\<forall>p \<in> set (bone_ptrs s). ?h p \<noteq> None"
    using ok by (simp add: anim_ok_def)
  then have nmsome: "map (\<lambda>p. map_option bone_name (?h p)) (bone_ptrs s) = map Some names"
    by (auto simp: names_def)
  have nms: "set names \<subseteq> forest_names ts"
  proof
    fix nm
    assume "nm \<in> set names"
    then obtain p where p: "p \<in> set (bone_ptrs s)" and nm: "nm = the (map_option bone_name (?h p))"
      by (auto simp: names_def)
    from subtree_names [OF tr, of p] p sub obtain b cs where "?h p = Some b"
      "insert (bone_name b) (forest_names cs) \<subseteq> forest_names ts"
      by auto
    with nm show "nm \<in> forest_names ts"
      by simp
  qed
  have nok: "\<forall>nm \<in> set names. name_ok nm"
  proof
    fix nm
    assume "nm \<in> set names"
    with nms obtain t where "t \<in> set ts" "nm \<in> tree_names t"
      by (auto simp: forest_names_def)
    with tok show "name_ok nm"
      by (blast intro: tree_ok_names)
  qed
  have lenA: "length (animations s) < 2 ^ 31"
    using ok by (simp add: anim_ok_def)
  have una: "unat (word_of_nat (length (animations s)) :: 32 word) = length (animations s)"
    using lenA by (intro unat_count) simp
  have unb: "unat (word_of_nat (length (bone_ptrs s)) :: 32 word) = length names"
    using nb by (simp add: unat_count names_def)
  have rel: "release new_animator = Some new_animator"
    by (simp add: release_def new_animator_def)
  have na: "sa_transforms new_animator = []" "anim_name_to_id new_animator = Map.empty"
    "bones_to_index new_animator = Map.empty"
    by (simp_all add: new_animator_def)
  have wf0: "tree_wf (next_id (skel new_animator)) (heap (skel new_animator))"
    by (simp add: new_animator_def empty_skeleton_def tree_wf_def)
  have lts: "length ts = 1"
    using conjunct1 [OF save_skel_trees_aux [OF tr, of cd]] by simp
  from load_skel_trees_aux [OF refl cd tok wf0, of None REST] lts obtain ids sk' where
    ls: "load_skel cd None 1 (skel new_animator) (concat (map (write_tree cd) ts) @ REST) = Some (ids, sk', REST)"
    and ld: "loaded None (skel new_animator) ids ts sk'"
    by auto
  note L = loadedD [OF ld]
  have "fresh (skel new_animator)"
    by (simp add: fresh_def new_animator_def empty_skeleton_def)
  with load_skel_registers [OF ls] have reg: "registers (skel new_animator) sk'"
    by simp
  have nok': "names_ok sk'"
    using reg by (simp add: registers_def names_ok_def new_animator_def empty_skeleton_def)
  have "length ts = length ids"
    using conjunct1 [OF save_skel_trees_aux [OF L(6), of cd]] .
  with lts obtain i where ids: "ids = [i]"
    by (cases ids) auto
  have hi: "heap sk' i \<noteq> None"
    using L(7) ids by auto
  have known: "\<forall>nm \<in> set names. bones_by_name sk' nm \<noteq> None"
  proof
    fix nm
    assume "nm \<in> set names"
    with nms trees_of_names_region [OF L(6)] L(5) L(4) obtain j b where
      "next_id (skel new_animator) \<le> j" "j < next_id sk'" "heap sk' j = Some b" "bone_name b = nm"
      by blast
    with reg show "bones_by_name sk' nm \<noteq> None"
      by (fastforce simp: registers_def)
  qed
  from those_map_Some [OF known] obtain ptrs where thp: "those (map (bones_by_name sk') names) = Some ptrs"
    by blast
  from those_Some_map [OF thp] have ptrs: "ptrs = map (\<lambda>nm. the (bones_by_name sk' nm)) names"
    by blast
  have pnames: "map (\<lambda>p. map_option bone_name (heap sk' p)) ptrs = map Some names"
    using known nok' by (auto simp: ptrs names_ok_def)
  have pran: "set ptrs \<subseteq> ran (bones_by_name sk')"
    using known by (auto simp: ptrs ran_def)
  define s2 where "s2 = new_animator\<lparr>skel := sk', root := Some i, animations := map ev_reset (animations s),
     anim_name_to_id := foldl (\<lambda>m j. map_insert m (ev_name (map ev_reset (animations s) ! j)) (word_of_nat j))
       Map.empty [0..<length (animations s)],
     current_anim := 0, bone_ptrs := ptrs, bones_to_index := index_names Map.empty names,
     sa_transforms := resize (length ptrs) []\<rparr>"
  have ld_eq: "load_sa cd (concat (map (write_tree cd) ts) @ REST) new_animator = bake_anims [0..<length (animations s)] s2"
    using ls unfolding REST_def
    by (simp add: load_sa_def rel una unb load_evs [OF cd evs] read_names [OF nok] thp ids ne s2_def na)
  have ok2: "anim_ok s2"
    unfolding s2_def using L(2) hi nok' pran ne lenA by (rule anim_ok_loaded_state)
  have "trees_of (heap sk') [i] = Some ts"
    using L(6) ids by simp
  with sv ld_eq ok2 pnames nmsome show ?thesis
    by (auto simp: s2_def new_animator_def)
qed

text \<open>C34: \<open>SceneAnimator::Save\<close> followed by \<open>Load\<close> into a fresh animator restores the
  scene. For a valid animator with a skeleton, at least one animation, every skinned bone in
  the skeleton, every tick rate positive, names shorter than 250 bytes without NUL, and a
  float encoding that reproduces the saved values: \<open>Load\<close> returns (it terminates, and no step
  is undefined) a valid animator with the same skeleton tree (names, offsets, bind poses,
  children), the same animations (names, durations, tick rates, channels, in order), and
  skinned bones with the same names in the same order.\<close>

theorem scene_save_load:
  assumes cd: "codec_wf cd" and ok: "anim_ok s" and r: "root s = Some r"
    and tr: "trees_of (heap (skel s)) [r] = Some ts" and tok: "\<forall>t \<in> set ts. tree_ok cd t"
    and evs: "\<forall>ev \<in> set (animations s). ev_ok cd ev \<and> 0 < ticks_per_second ev"
    and ne: "animations s \<noteq> []"
    and sub: "set (bone_ptrs s) \<subseteq> subtree (heap (skel s)) {r}" and nb: "length (bone_ptrs s) < 2 ^ 32"
  shows "\<exists>bs s'. save_sa cd s = Some bs \<and> load_sa cd bs new_animator = Some s' \<and> anim_ok s' \<and>
           (\<exists>r'. root s' = Some r' \<and> trees_of (heap (skel s')) [r'] = Some ts) \<and>
           map ev_core (animations s') = map ev_core (animations s) \<and>
           map (\<lambda>p. map_option bone_name (heap (skel s') p)) (bone_ptrs s') =
             map (\<lambda>p. map_option bone_name (heap (skel s) p)) (bone_ptrs s)"
proof -
  have evs': "\<forall>ev \<in> set (animations s). ev_ok cd ev"
    using evs by simp
  from load_sa_state [OF cd ok r tr tok evs' ne sub nb] obtain bs s2 r' where
    sv: "save_sa cd s = Some bs" and ld: "load_sa cd bs new_animator = bake_anims [0..<length (animations s)] s2"
    and ok2: "anim_ok s2" and r': "root s2 = Some r'" "trees_of (heap (skel s2)) [r'] = Some ts"
    and an: "animations s2 = map ev_reset (animations s)"
    and bn: "map (\<lambda>p. map_option bone_name (heap (skel s2) p)) (bone_ptrs s2) =
             map (\<lambda>p. map_option bone_name (heap (skel s) p)) (bone_ptrs s)"
    by blast
  have "\<forall>i \<in> set [0..<length (animations s)]. i < length (animations s2) \<and> 0 < ticks_per_second (animations s2 ! i)"
    using evs an by (auto simp: ev_reset_def)
  from bake_anims_ok [OF ok2 this] obtain s' where b: "bake_anims [0..<length (animations s)] s2 = Some s'"
    and ok': "anim_ok s'" and k: "keeps s2 s'"
    by blast
  have v: "saved_view (heap (skel s')) = saved_view (heap (skel s2))" and rt: "root s' = root s2"
    and c: "map ev_core (animations s') = map ev_core (animations s2)" and bp: "bone_ptrs s' = bone_ptrs s2"
    using k by (simp_all add: keeps_def)
  have "trees_of (heap (skel s')) [r'] = Some ts"
    using trees_of_view [OF r'(2)] v by simp
  moreover have "map (\<lambda>p. map_option bone_name (heap (skel s') p)) (bone_ptrs s') =
      map (\<lambda>p. map_option bone_name (heap (skel s) p)) (bone_ptrs s)"
    using bn bp saved_view_name [OF v] by simp
  moreover have "map ev_core (animations s') = map ev_core (animations s)"
    using c an by (simp add: comp_def)
  ultimately show ?thesis
    using sv ld b ok' rt r'(1) by auto
qed

end
