(* ===== verification/DualQuat.thy ===== *)
theory DualQuat
  imports Prelude
begin

text \<open>
  \<open>UQTtoUDQ\<close> (cAnimationController.cpp lines 395-404): the conversion of a unit
  quaternion and a translation into a unit dual quaternion, written into the first two
  elements of a \<open>vec4\<close> array. Its only call, in \<open>CalcBoneMatrices\<close>, is commented out;
  the function is modelled as written. The engine's \<open>vec4\<close> and \<open>quat\<close> (MyMath.h, not in
  this repository) store \<open>x, y, z, w\<close>; \<open>tran[i]\<close> is the \<open>i\<close>-th of them. The output array
  is a list updated at indices 0 and 1; an array shorter than two elements is written out of
  bounds, which is undefined (\<open>None\<close>).

  The reference is the textbook construction: the real part is the rotation \<open>q\<close>, the dual
  part is \<open>t q / 2\<close> with \<open>t\<close> the pure quaternion of the translation and the product the
  Hamilton product. The theory shows the code computes it, that the translation is
  recovered as \<open>2 d q*\<close>, and that the result is a unit dual quaternion.
\<close>

subsection \<open>Engine vectors and quaternions\<close>

datatype vec4 = Vec4 (v4x: real) (v4y: real) (v4z: real) (v4w: real)

datatype mquat = MQuat (mqx: real) (mqy: real) (mqz: real) (mqw: real)

text \<open>\<open>vec4::operator[]\<close>: the components in storage order.\<close>

fun vec4_get :: "vec4 \<Rightarrow> nat \<Rightarrow> real" where
  "vec4_get (Vec4 x y z w) i = (if i = 0 then x else if i = 1 then y else if i = 2 then z else w)"

subsection \<open>The conversion\<close>

definition uqt_to_udq :: "vec4 list \<Rightarrow> mquat \<Rightarrow> vec4 \<Rightarrow> vec4 list option" where
  "uqt_to_udq dual q tran =
     (if length dual < 2 then None
      else
        (let t0 = vec4_get tran 0; t1 = vec4_get tran 1; t2 = vec4_get tran 2;
             d0 = Vec4 (mqx q) (mqy q) (mqz q) (mqw q);
             d1 = Vec4 (0.5 * ( t0 * mqw q + t1 * mqz q - t2 * mqy q))
                       (0.5 * (- t0 * mqz q + t1 * mqw q + t2 * mqx q))
                       (0.5 * ( t0 * mqy q - t1 * mqx q + t2 * mqw q))
                       (- 0.5 * ( t0 * mqx q + t1 * mqy q + t2 * mqz q))
         in Some (dual[0 := d0, 1 := d1])))"

subsection \<open>Quaternion algebra on \<open>vec4\<close> (the reference)\<close>

text \<open>The Hamilton product of quaternions stored as \<open>(x, y, z, w)\<close>.\<close>

fun qmul :: "vec4 \<Rightarrow> vec4 \<Rightarrow> vec4" where
  "qmul (Vec4 ax ay az aw) (Vec4 bx by bz bw) =
     Vec4 (aw * bx + ax * bw + ay * bz - az * by)
          (aw * by - ax * bz + ay * bw + az * bx)
          (aw * bz + ax * by - ay * bx + az * bw)
          (aw * bw - ax * bx - ay * by - az * bz)"

fun qconj :: "vec4 \<Rightarrow> vec4" where
  "qconj (Vec4 x y z w) = Vec4 (- x) (- y) (- z) w"

fun qscale :: "real \<Rightarrow> vec4 \<Rightarrow> vec4" where
  "qscale s (Vec4 x y z w) = Vec4 (s * x) (s * y) (s * z) (s * w)"

fun qdot :: "vec4 \<Rightarrow> vec4 \<Rightarrow> real" where
  "qdot (Vec4 ax ay az aw) (Vec4 bx by bz bw) = ax * bx + ay * by + az * bz + aw * bw"

definition pure :: "vec4 \<Rightarrow> vec4" where
  "pure t = Vec4 (vec4_get t 0) (vec4_get t 1) (vec4_get t 2) 0"

fun quat_vec :: "mquat \<Rightarrow> vec4" where
  "quat_vec (MQuat x y z w) = Vec4 x y z w"

definition unit_quat :: "mquat \<Rightarrow> bool" where
  "unit_quat q \<longleftrightarrow> qdot (quat_vec q) (quat_vec q) = 1"

text \<open>The dual quaternion of a rotation and a translation: real part \<open>q\<close>, dual part
  \<open>t q / 2\<close>.\<close>

definition udq_ref :: "mquat \<Rightarrow> vec4 \<Rightarrow> vec4 \<times> vec4" where
  "udq_ref q t = (quat_vec q, qscale (1 / 2) (qmul (pure t) (quat_vec q)))"

text \<open>A unit dual quaternion: a unit real part orthogonal to the dual part.\<close>

definition unit_dq :: "vec4 \<Rightarrow> vec4 \<Rightarrow> bool" where
  "unit_dq r e \<longleftrightarrow> qdot r r = 1 \<and> qdot r e = 0"

subsection \<open>Lemmas\<close>

lemma qmul_assoc: "qmul (qmul a b) c = qmul a (qmul b c)"
  by (cases a; cases b; cases c) (simp add: algebra_simps)

lemma qmul_conj_right: "qmul q (qconj q) = Vec4 0 0 0 (qdot q q)"
  by (cases q) (simp add: algebra_simps power2_eq_square)

lemma qmul_norm: "qmul p (Vec4 0 0 0 s) = qscale s p"
  by (cases p) (simp add: algebra_simps)

lemma qmul_qscale: "qmul (qscale s a) b = qscale s (qmul a b)"
  by (cases a; cases b) (simp add: algebra_simps)

lemma qscale_qscale: "qscale s (qscale r a) = qscale (s * r) a"
  by (cases a) simp

lemma qscale_one [simp]: "qscale 1 a = a"
  by (cases a) simp

lemma qdot_pure_prod: "qdot q (qmul (pure t) q) = 0"
  by (cases q; cases t) (simp add: pure_def algebra_simps)

lemma qdot_qscale: "qdot a (qscale s b) = s * qdot a b"
  by (cases a; cases b) (simp add: algebra_simps)

lemma uqt_to_udq_eq:
  "uqt_to_udq dual q t =
     (if length dual < 2 then None else Some (dual[0 := fst (udq_ref q t), 1 := snd (udq_ref q t)]))"
proof -
  obtain x y z w where q: "q = MQuat x y z w"
    by (cases q)
  obtain a b c e where t: "t = Vec4 a b c e"
    by (cases t)
  show ?thesis
    unfolding uqt_to_udq_def udq_ref_def pure_def q t
    by (simp add: Let_def algebra_simps)
qed

lemma uqt_to_udq_Some:
  assumes "uqt_to_udq dual q t = Some d"
  shows "d ! 0 = fst (udq_ref q t)" "d ! 1 = snd (udq_ref q t)"
proof -
  from assms have len: "0 < length dual" "1 < length dual"
    and d: "d = dual[0 := fst (udq_ref q t), 1 := snd (udq_ref q t)]"
    by (auto simp: uqt_to_udq_eq split: if_splits)
  show "d ! 0 = fst (udq_ref q t)" "d ! 1 = snd (udq_ref q t)"
    using len by (simp_all add: d nth_list_update)
qed

subsection \<open>Properties\<close>

text \<open>C31: \<open>UQTtoUDQ\<close> computes the textbook dual quaternion: it succeeds exactly when the
  output array has room for two elements, and then writes the rotation as the real part and
  half the product of the pure translation quaternion with the rotation as the dual part,
  leaving the rest of the array unchanged.\<close>

theorem uqt_to_udq_ref:
  "uqt_to_udq dual q t = Some d \<longleftrightarrow>
     2 \<le> length dual \<and> d = dual[0 := fst (udq_ref q t), 1 := snd (udq_ref q t)]"
  by (simp add: uqt_to_udq_eq not_less eq_commute)

text \<open>C32: the translation is recovered from the result: for a unit rotation,
  \<open>2 \<cdot> dual[1] \<cdot> conj(dual[0])\<close> is the pure quaternion of \<open>tran\<close>.\<close>

theorem uqt_to_udq_translation:
  assumes "unit_quat q" "uqt_to_udq dual q t = Some d"
  shows "qscale 2 (qmul (d ! 1) (qconj (d ! 0))) = pure t"
proof -
  have "qmul (d ! 1) (qconj (d ! 0)) =
      qscale (1 / 2) (qmul (pure t) (qmul (quat_vec q) (qconj (quat_vec q))))"
    using uqt_to_udq_Some [OF assms(2)] by (simp add: udq_ref_def qmul_qscale qmul_assoc)
  also have "\<dots> = qscale (1 / 2) (pure t)"
    using assms(1) by (simp add: qmul_conj_right qmul_norm unit_quat_def)
  finally show ?thesis
    by (simp add: qscale_qscale)
qed

text \<open>C33: the result is a unit dual quaternion whenever the rotation is a unit
  quaternion: the real part has norm one and is orthogonal to the dual part.\<close>

theorem uqt_to_udq_unit:
  assumes "unit_quat q" "uqt_to_udq dual q t = Some d"
  shows "unit_dq (d ! 0) (d ! 1)"
  using assms(1) uqt_to_udq_Some [OF assms(2)]
  by (simp add: unit_dq_def unit_quat_def udq_ref_def qdot_qscale qdot_pure_prod)

end
