(* ===== verification/Spec2Isabelle.thy ===== *)
theory Spec2Isabelle
  imports SceneRoundTrip DualQuat
begin

text \<open>
  \<^bold>\<open>Skeletal animation evaluation and caching (src/DX11/Core/Model/cAnimationController.h,
  cAnimationController.cpp), modelled in Isabelle/HOL.\<close>

  \<^bold>\<open>The program.\<close> A \<open>SceneAnimator\<close> builds a tree of \<open>cBone\<close> nodes from an
  imported assimp scene, binds the bones the meshes use into a list \<open>Bones\<close> whose
  order is the order of the matrices handed to the renderer, and turns every
  \<open>aiAnimation\<close> into a \<open>cAnimEvaluator\<close>. An evaluator holds the animation's
  \<open>cAnimationChannel\<close>s (one per animated bone: position, rotation and scaling keys),
  one cursor triple per channel (\<open>mLastPositions\<close>) and the wrapped time of its last
  evaluation (\<open>mLastTime\<close>). \<open>Evaluate\<close> wraps a time into the animation's period,
  seeks each track's present key starting from the cursor when time has moved forward,
  interpolates, and writes each bone's local matrix. \<open>Init\<close> and \<open>Load\<close> bake every
  animation at 30 frames a second into \<open>Transforms\<close>, and \<open>GetTransforms\<close> picks a
  baked frame with \<open>GetFrameIndexAt\<close>. \<open>Save\<close>/\<open>Load\<close> write and read the skeleton,
  the animations and the bone order in a binary format.

  \<^bold>\<open>The theories.\<close>
  \<^item> \<open>Prelude\<close>: the scalar types (\<open>float\<close>, \<open>double\<close> as \<open>real\<close>), the C runtime
    operations the code calls (\<open>fmod\<close>, float to \<open>unsigned int\<close> conversion with its
    undefined cases as \<open>None\<close>), the fact collections, and lemmas on the wrapping of a
    time by \<open>fmod\<close>.
  \<^item> \<open>Math\<close>: assimp's vectors, quaternions, keys and matrices and the engine's
    \<open>mat4\<close>; \<open>TransformMatrix\<close> (\<open>transform_matrix\<close>) and the composition of a
    bone's local matrix in \<open>Evaluate\<close> (\<open>compose_local\<close>). The library operations
    (\<open>aiQuaternion::GetMatrix\<close>, \<open>aiQuaternion::Interpolate\<close>, \<open>mat4\<close>'s product)
    are modelled from their documented behaviour; \<open>mat4\<close> is shown a \<open>monoid_mult\<close>.
  \<^item> \<open>Channel\<close>: \<open>cAnimationChannel\<close> and the per-track body of \<open>Evaluate\<close>
    (lines 157-233): \<open>seek_frame\<close> is the \<open>while\<close> loop of the seek,
    \<open>start_frame\<close> the choice between cursor and 0, \<open>interp_keys\<close> the interpolation
    with its wrap-around pair, \<open>position_track\<close>, \<open>rotation_track\<close>,
    \<open>scaling_track\<close> the three blocks, \<open>eval_channel\<close> one channel. The reference
    \<open>key_index\<close> is the stateless seek and \<open>channel_pose\<close> the pose it gives;
    \<open>cursor_ok\<close> is the cursor invariant.
  \<^item> \<open>Evaluator\<close>: \<open>cAnimEvaluator\<close>, its constructor (\<open>make_evaluator\<close>),
    \<open>Evaluate\<close> (\<open>evaluate\<close>, the loop over channels as a fold over the indices,
    returning the local-matrix writes in order), \<open>GetFrameIndexAt\<close>
    (\<open>get_frame_index_at\<close>) and \<open>GetTransforms\<close> (\<open>get_transforms\<close>), the
    reference \<open>pose_ref\<close>, the invariant \<open>ev_inv\<close> and the reachable evaluators
    \<open>reachable_ev\<close>.
  \<^item> \<open>Skeleton\<close>: \<open>cBone\<close> and the bone tree. The bones live in an arena
    \<open>heap\<close> (addresses to bones, pointers as addresses, \<open>NULL\<close> as \<open>None\<close>);
    \<open>climb\<close> is the parent loop of \<open>CalculateBoneToWorldTransform\<close> and
    \<open>calc_global\<close> the whole function, \<open>create_bone_tree\<close>/\<open>create_children\<close>
    are \<open>CreateBoneTree\<close> and its loop over the children, \<open>update_list\<close>/
    \<open>update_transforms\<close> are \<open>UpdateTransforms\<close>. \<open>tree_wf\<close> is the shape of a
    well-formed tree, \<open>global_ok\<close> the correctness of one global transform.
  \<^item> \<open>Animator\<close>: the state of \<open>SceneAnimator\<close> (\<open>scene_animator\<close>), its
    constructor, \<open>Release\<close> (with the recursive \<open>delete\<close> of \<open>~cBone\<close> as
    \<open>delete_list\<close>), \<open>SetAnimIndex\<close>, \<open>SetAnimation\<close>, \<open>Calculate\<close> (which
    applies \<open>Evaluate\<close>'s writes to the arena, \<open>write_locals\<close>, and then runs
    \<open>UpdateTransforms\<close> from the root), \<open>CalcBoneMatrices\<close> and the inline members of
    the header, and the destructor (\<open>destroy_sa\<close>). \<open>CurrentAnimIndex\<close> is a \<open>32 word\<close>; its comparisons with
    \<open>Animations.size()\<close> convert it to a 64-bit \<open>size_t\<close> (\<open>size_index\<close>). The
    client's calls are the operations \<open>sa_op\<close> of the step function \<open>sa_step\<close>, and
    \<open>anim_ok\<close> is the invariant of an initialised animator.
  \<^item> \<open>Init\<close>: \<open>Init\<close>, \<open>ExtractAnimations\<close>, the collection of the mesh bones
    and the bake loop (\<open>bake_loop\<close>, a partial function because it need not end, and
    \<open>bake_anims\<close> over the animations).
  \<^item> \<open>Persist\<close>: the byte format of \<open>cAnimEvaluator::Save\<close>/\<open>Load\<close>
    (lines 56-136 of the .cpp): bytes are \<open>8 word\<close>s, a \<open>uint32_t\<close> is four
    little-endian bytes (\<open>bytes_of_u32\<close>, \<open>u32_of_bytes\<close>), a stream read is
    \<open>read_bytes\<close> (\<open>None\<close> when the stream runs short), a name is read into the
    250-byte buffer and cut at its first NUL (\<open>read_name\<close>); keys, tracks and channels
    are written by \<open>write_key\<close>, \<open>write_track\<close>, \<open>write_channel\<close> and read back by
    the \<open>read_\<close> functions; \<open>save_ev\<close> and \<open>load_ev\<close> are the two members. The
    byte image of a \<open>float\<close> or \<open>double\<close> is a parameter (\<open>scalar_codec\<close>) of the
    whole format, so the theorems hold for any encoding of the right width.
  \<^item> \<open>SceneFile\<close>: \<open>SaveSkeleton\<close>/\<open>LoadSkeleton\<close> (\<open>save_skel\<close>,
    \<open>load_skel\<close>, partial functions over the arena, lines 465-500), the matrices
    (\<open>write_mat4\<close>, \<open>read_mat4\<close>), \<open>SceneAnimator::Save\<close> (\<open>save_sa\<close>) and
    \<open>SceneAnimator::Load\<close> (\<open>load_sa\<close>, lines 294-360). The saved view of a
    subtree is a \<open>btree\<close> (\<open>trees_of\<close> reads it off the arena, \<open>write_tree\<close>
    gives its bytes), and \<open>loaded\<close> is what one call of \<open>LoadSkeleton\<close> on a run
    of siblings guarantees: fresh well-formed bones closed under \<open>Children\<close>, the same
    tree, bind pose, correct globals, the older bones untouched.
  \<^item> \<open>SceneRoundTrip\<close>: the composition of the whole file format with the bake:
    \<open>saved_view\<close> and \<open>ev_core\<close> are what the file carries of a bone and an animation,
    \<open>keeps\<close> says a step leaves them alone (every \<open>Calculate\<close>, every pushed frame, the whole
    bake), \<open>registers\<close> tracks the names \<open>LoadSkeleton\<close> enters in \<open>BonesByName\<close>, and
    \<open>forest_names\<close> the names of a saved tree.
  \<^item> \<open>DualQuat\<close>: \<open>UQTtoUDQ\<close> (lines 395-404) over MyMath's \<open>vec4\<close> and \<open>quat\<close>,
    with the Hamilton product as its reference.
  \<^item> \<open>Spec2Isabelle\<close> (this theory): concrete inputs (an evaluator, a two-bone
    initialised animator, a one-node scene, a test codec) and the witnesses of the theorems
    with hypotheses.

  \<^bold>\<open>What is shown.\<close> The seek optimisation is correct: for sorted key tracks,
  the stateful \<open>Evaluate\<close> produces, over any sequence of calls, exactly the writes
  of the stateless reference (C1), because every reachable evaluator keeps valid cursors
  (C2). Positions interpolate linearly between keys (C3) and equal a key's value at its
  time stamp (C10); a channel without keys gives the identity (C11); evaluation loops
  with the period (C9); one \<open>Evaluate\<close> call skips the channels whose node is not a bone,
  keeping their cursors, and writes the others in channel order (C12). \<open>GetFrameIndexAt\<close> stays inside the cache for forward playback of
  non-negative times (C5). \<open>CreateBoneTree\<close> terminates and builds a well-formed
  tree with correct globals and names (C13); \<open>UpdateTransforms\<close> terminates and makes the
  globals of a subtree correct (C14); the loop's globals satisfy the recursive contract
  \<open>global = local * global(parent)\<close> (C15). On a valid animator no sequence of client
  calls has undefined behaviour (C16); \<open>Calculate\<close> refines the stateless pose followed
  by the propagation of the globals (C17); \<open>SetAnimIndex\<close> accepts exactly the valid
  indices, negative ones included in the rejection (C18); \<open>Calculate\<close> ignores an invalid
  index (C19); the bake loop bakes exactly \<open>ceil((Duration - ticks) * 30 / TicksPerSecond)\<close>
  frames for a positive rate (C20). \<open>cAnimEvaluator::Load\<close> reads back what
  \<open>Save\<close> wrote, up to the playback state \<open>Load\<close> resets (C25). \<open>SaveSkeleton\<close>
  followed by \<open>LoadSkeleton\<close> rebuilds the same tree of names, offsets and bind poses,
  well-formed and with correct global transforms, into fresh bones of any well-formed
  skeleton (C28), and \<open>SaveSkeleton\<close> terminates on a well-formed tree (C29). The
  round trips assume what the format needs: names shorter than 250 bytes without NUL,
  fewer than \<open>2^32\<close> items, and a float encoding that reproduces the saved values.
  For the whole animator, \<open>Save\<close> followed by \<open>Load\<close> into a fresh animator terminates
  (every tick rate positive), has no undefined step, and yields a valid animator with the same
  skeleton, the same animations and the same skinned bones by name (C34); this composes the
  skeleton and evaluator round trips with the name lookup of \<open>BonesByName\<close> and the
  termination of the bake. \<open>UQTtoUDQ\<close> computes the textbook dual quaternion (C31), from
  which the translation is recovered (C32), and which is a unit dual quaternion (C33).

  \<^bold>\<open>What the model shows about the code.\<close> Scalings are not interpolated (C4),
  against the specification. Backward playback at time 0 indexes one past the cache
  (C6); negative times give an undefined conversion (C7); an evaluator built by
  \<open>Init\<close> has an uninitialised playback direction (C8). The bake loop never ends for
  a zero or negative tick rate (C21). \<open>Release\<close> frees the tree but keeps \<open>Bones\<close> and
  \<open>BonesByName\<close>, so \<open>Init\<close> on an animator that already has a skeleton reads a freed
  bone whatever the new scene is (C22); it also keeps \<open>AnimationNameToId\<close>, so after it
  \<open>SetAnimation\<close> selects an animation that no longer exists and every call on the
  current animation indexes an empty vector (C23). The bake loop advances \<open>dt\<close> before
  it calculates, so the first baked frame is the pose at one thirtieth of a second, not
  at 0 (C24). A name of
  250 bytes or more overflows \<open>Load\<close>'s buffer (C26) and a name with a NUL byte is
  cut short by it (C27). \<open>Save\<close> writes no skeleton record when there is no skeleton
  but \<open>Load\<close> always reads one, so such a file cannot be read back (C30).

  \<^bold>\<open>Choices.\<close> Floating-point values are real numbers: rounding, NaN
  propagation other than \<open>0/0\<close> and float accumulation in the bake loop are not
  modelled (with real arithmetic the tick counter is exact, so C20's count is the count of
  exact arithmetic). \<open>Evaluate\<close>'s writes are returned as a list and applied by
  \<open>Calculate\<close>; \<open>Evaluate\<close> reads no bone, so the order of the writes relative to the
  evaluation does not matter. Undefined behaviour (a dangling or null pointer, an
  out-of-range index, an indeterminate value) is \<open>None\<close>. No fuel is used:
  \<open>seek_frame\<close> terminates by a measure, the pointer loops and the bake loop are
  \<open>partial_function (option)\<close> and their termination is proved where it holds (C13, C14,
  C20) and refuted where it does not (C21). \<open>size_t\<close> is 64 bits (the x64 build).

  \<^bold>\<open>Not modelled.\<close> The stream is a byte list: its failure state is \<open>None\<close>
  at the first short read, where the code goes on with the bytes it did not get.
  Logging and the opening of
  the file streams are I/O. The scene round trip (C34) is proved for a \<open>Load\<close> into a fresh
  animator; a \<open>Load\<close> into one that already holds a scene starts from \<open>Release\<close>, which
  keeps stale \<open>BonesByName\<close> entries (the defect behind C22).
\<close>

subsection \<open>Concrete inputs\<close>

definition example_pos_keys :: "vec3 key list" where
  "example_pos_keys = [\<lparr>key_time = 0, key_value = Vec3 0 0 0\<rparr>,
                       \<lparr>key_time = 1, key_value = Vec3 10 0 0\<rparr>]"

definition example_scale_keys :: "vec3 key list" where
  "example_scale_keys = [\<lparr>key_time = 0, key_value = Vec3 1 1 1\<rparr>,
                         \<lparr>key_time = 1, key_value = Vec3 3 3 3\<rparr>]"

definition example_anim :: ai_animation where
  "example_anim =
     \<lparr>an_name = ''walk'', an_duration = 1, an_ticks_per_second = 1,
      an_channels = [\<lparr>na_node_name = ''hip'', na_position_keys = example_pos_keys,
                      na_rotation_keys = [], na_scaling_keys = []\<rparr>]\<rparr>"

definition example_bones :: "string \<rightharpoonup> nat" where
  "example_bones = [''hip'' \<mapsto> 0]"

definition example_ev :: anim_evaluator where
  "example_ev = make_evaluator example_anim"

text \<open>The same evaluator after a bake of three frames, played forward or backward.\<close>

definition example_baked :: "bool \<Rightarrow> anim_evaluator" where
  "example_baked fwd = example_ev\<lparr>play_forward := Some fwd, transforms := [[1], [1], [1]]\<rparr>"

definition example_empty_channel :: channel where
  "example_empty_channel =
     \<lparr>ch_name = ''tip'', position_keys = [], rotation_keys = [], scaling_keys = []\<rparr>"

text \<open>A two-bone skeleton: a root at the origin and an arm translated by two units along
  \<open>y\<close>, its global transform already computed.\<close>

definition example_arm :: mat4 where
  "example_arm = Mat4 1 0 0 0  0 1 0 0  0 0 1 0  0 2 0 1"

definition example_heap :: heap where
  "example_heap = [0 \<mapsto> (new_bone ''root'' None 1)\<lparr>children := [1]\<rparr>,
                   1 \<mapsto> (new_bone ''arm'' (Some 0) example_arm)\<lparr>global_transform := example_arm\<rparr>]"

text \<open>An initialised animator over that skeleton: one animation (the evaluator above),
  current, both bones skinned.\<close>

definition example_sa :: scene_animator where
  "example_sa =
     \<lparr>animations = [example_ev], current_anim = 0,
      skel = \<lparr>heap = example_heap, next_id = 2, bones_by_name = [''root'' \<mapsto> 0, ''arm'' \<mapsto> 1]\<rparr>,
      root = Some 0, bones_to_index = [''root'' \<mapsto> 0, ''arm'' \<mapsto> 1],
      anim_name_to_id = [''walk'' \<mapsto> 0], bone_ptrs = [0, 1], sa_transforms = [1, 1]\<rparr>"

text \<open>A scene with a single root node skinned by its one mesh bone, and an animation
  ''Idle'' of one tick at 15 ticks per second moving the root from \<open>(0,0,0)\<close> to
  \<open>(10,0,0)\<close>: the bake loop takes two frames.\<close>

definition example_identity :: aimat4 where
  "example_identity = AiMat4 1 0 0 0  0 1 0 0  0 0 1 0  0 0 0 1"

definition example_scene :: ai_scene where
  "example_scene =
     \<lparr>sc_root = AiNode ''root'' example_identity [],
      sc_meshes = [[\<lparr>ab_name = ''root'', ab_offset = example_identity\<rparr>]],
      sc_animations =
        [\<lparr>an_name = ''Idle'', an_duration = 1, an_ticks_per_second = 15,
          an_channels = [\<lparr>na_node_name = ''root'', na_position_keys = example_pos_keys,
                          na_rotation_keys = [], na_scaling_keys = []\<rparr>]\<rparr>]\<rparr>"

text \<open>A test codec for scalars: a natural number below \<open>2^32\<close> is written as its
  \<open>uint32_t\<close> bytes (padded to 8 for a \<open>double\<close>) and read back exactly.\<close>

definition example_codec :: scalar_codec where
  "example_codec =
     \<lparr>enc_f32 = (\<lambda>x. bytes_of_u32 (word_of_nat (nat \<lfloor>x\<rfloor>))),
      dec_f32 = (\<lambda>bs. real (unat (u32_of_bytes bs))),
      enc_f64 = (\<lambda>x. bytes_of_u32 (word_of_nat (nat \<lfloor>x\<rfloor>)) @ [0, 0, 0, 0]),
      dec_f64 = (\<lambda>bs. real (unat (u32_of_bytes (take 4 bs))))\<rparr>"

lemmas example_defs = example_pos_keys_def example_scale_keys_def example_anim_def
  example_bones_def example_ev_def example_baked_def example_empty_channel_def

subsection \<open>Witnesses\<close>

lemma example_ev_sorted: "ev_sorted example_ev"
  by (simp add: example_defs ev_sorted_def make_evaluator_def make_channel_def
      channel_sorted_def keys_sorted_def)

lemma example_ev_inv: "ev_inv example_bones example_ev"
  unfolding example_ev_def by (rule make_evaluator_inv)

lemma example_baked_fields [simp]:
  "play_forward (example_baked fwd) = Some fwd"
  "duration (example_baked fwd) = 1"
  "ticks_per_second (example_baked fwd) = 1"
  "transforms (example_baked fwd) = [[1], [1], [1]]"
  by (simp_all add: example_defs make_evaluator_def)

theorem eval_run_pose_ref_witness:
  "ev_inv example_bones example_ev \<and> ev_sorted example_ev \<and>
   eval_run [1 / 2, 1 / 4, 3] example_bones example_ev =
     map (\<lambda>p. pose_ref p example_bones example_ev) [1 / 2, 1 / 4, 3]"
  using example_ev_inv example_ev_sorted eval_run_pose_ref [OF example_ev_inv example_ev_sorted]
  by simp

theorem reachable_ev_inv_witness:
  "reachable_ev example_bones (fst (evaluate (1 / 2) example_bones example_ev)) \<and>
   ev_inv example_bones (fst (evaluate (1 / 2) example_bones example_ev))"
proof -
  have r: "reachable_ev example_bones (fst (evaluate (1 / 2) example_bones example_ev))"
    unfolding example_ev_def by (intro reachable_ev.intros)
  show ?thesis
    using r reachable_ev_inv [OF r] by simp
qed

lemma example_pos_keys_facts:
  "keys_sorted example_pos_keys" "cursor_ok example_pos_keys 0 0"
  "Suc 0 < length example_pos_keys" "key_time (example_pos_keys ! 0) \<le> 1 / 2"
  "1 / 2 < key_time (example_pos_keys ! Suc 0)"
  by (simp_all add: example_pos_keys_def keys_sorted_def cursor_ok_def)

theorem position_track_between_witness:
  "keys_sorted example_pos_keys \<and> cursor_ok example_pos_keys 0 0 \<and>
   fst (position_track 1 (1 / 2) 0 example_pos_keys 0) = Vec3 5 0 0"
proof -
  have "fst (position_track 1 (1 / 2) 0 example_pos_keys 0) =
      vec_lerp (key_value (example_pos_keys ! 0)) (key_value (example_pos_keys ! Suc 0))
        ((1 / 2 - key_time (example_pos_keys ! 0)) /
         (key_time (example_pos_keys ! Suc 0) - key_time (example_pos_keys ! 0)))"
    by (rule position_track_between [OF example_pos_keys_facts])
  then show ?thesis
    using example_pos_keys_facts by (simp add: example_pos_keys_def vec_lerp_def)
qed

theorem scaling_track_between_witness:
  "keys_sorted example_scale_keys \<and>
   fst (scaling_track (1 / 2) 0 example_scale_keys 0) = Vec3 1 1 1"
proof -
  have f: "keys_sorted example_scale_keys" "cursor_ok example_scale_keys 0 0"
    "Suc 0 < length example_scale_keys" "key_time (example_scale_keys ! 0) \<le> 1 / 2"
    "1 / 2 < key_time (example_scale_keys ! Suc 0)"
    by (simp_all add: example_scale_keys_def keys_sorted_def cursor_ok_def)
  have "fst (scaling_track (1 / 2) 0 example_scale_keys 0) = key_value (example_scale_keys ! 0)"
    by (rule scaling_track_between [OF f])
  then show ?thesis
    using f(1) by (simp add: example_scale_keys_def)
qed

theorem get_frame_index_forward_in_range_witness:
  "\<exists>i. get_frame_index_at (example_baked True) (7 / 2) = Some i \<and> i < 3"
proof -
  have "\<exists>i. get_frame_index_at (example_baked True) (7 / 2) = Some i \<and>
      i < length (transforms (example_baked True))"
    by (rule get_frame_index_forward_in_range) simp_all
  then show ?thesis
    by (simp add: numeral_3_eq_3)
qed

theorem get_transforms_backward_at_zero_witness:
  "get_frame_index_at (example_baked False) 0 = Some 3 \<and> get_transforms (example_baked False) 0 = None"
proof -
  have "get_frame_index_at (example_baked False) 0 = Some (length (transforms (example_baked False))) \<and>
      get_transforms (example_baked False) 0 = None"
    by (rule get_transforms_backward_at_zero) simp_all
  then show ?thesis
    by simp
qed

theorem get_frame_index_negative_undefined_witness:
  "get_frame_index_at (example_baked True) (- 1 / 2) = None"
  by (rule get_frame_index_negative_undefined) simp_all

theorem evaluate_loops_witness:
  "evaluate (1 / 4 + 1) example_bones example_ev = evaluate (1 / 4) example_bones example_ev"
proof -
  have tps: "ticks_per_second example_ev = 1" and dur: "duration example_ev = 1"
    by (simp_all add: example_defs make_evaluator_def)
  have "evaluate (1 / 4 + duration example_ev / ticks_per_second example_ev) example_bones example_ev =
      evaluate (1 / 4) example_bones example_ev"
    by (rule evaluate_loops) (simp_all add: tps dur)
  then show ?thesis
    by (simp add: tps dur)
qed

theorem position_track_at_key_witness:
  "fst (position_track 1 1 0 example_pos_keys 0) = Vec3 10 0 0"
proof -
  have "fst (position_track 1 (key_time (example_pos_keys ! 1)) 0 example_pos_keys 0) =
      key_value (example_pos_keys ! 1)"
    by (rule position_track_at_key) (simp_all add: example_pos_keys_def cursor_ok_def)
  then show ?thesis
    by (simp add: example_pos_keys_def)
qed

theorem eval_channel_no_keys_witness:
  "eval_channel 1 (1 / 2) 0 example_empty_channel (0, 0, 0) = ((0, 0, 0), 1)"
  by (rule eval_channel_no_keys) (simp_all add: example_empty_channel_def)

lemma example_heap_wf: "tree_wf 2 example_heap"
  by (auto simp: tree_wf_def example_heap_def new_bone_def)

theorem update_transforms_correct_witness:
  "tree_wf 2 example_heap \<and> example_heap 0 \<noteq> None \<and>
   (\<exists>h'. update_transforms example_heap 0 = Some h' \<and> shape h' = shape example_heap \<and>
      (\<forall>j \<in> subtree example_heap {0}. global_ok h' j) \<and>
      (\<forall>j. global_ok example_heap j \<longrightarrow> global_ok h' j))"
  using update_transforms_correct [OF example_heap_wf, of 0] example_heap_wf
  by (simp add: example_heap_def)

theorem global_ok_compose_witness:
  "global_ok example_heap 1 \<and> global_ok example_heap 0 \<and>
   example_heap 1 = Some ((new_bone ''arm'' (Some 0) example_arm)\<lparr>global_transform := example_arm\<rparr>) \<and>
   example_heap 0 = Some ((new_bone ''root'' None 1)\<lparr>children := [1]\<rparr>) \<and>
   example_arm = example_arm * 1"
proof -
  have ok1: "global_ok example_heap 1" and ok0: "global_ok example_heap 0"
    by (simp_all add: global_ok_def example_heap_def new_bone_def climb_Some)
  have b1: "example_heap 1 = Some ((new_bone ''arm'' (Some 0) example_arm)\<lparr>global_transform := example_arm\<rparr>)"
    and b0: "example_heap 0 = Some ((new_bone ''root'' None 1)\<lparr>children := [1]\<rparr>)"
    by (simp_all add: example_heap_def)
  from global_ok_compose [OF ok1 ok0 b1 b0] have "example_arm = example_arm * 1"
    by (simp add: new_bone_def)
  with ok1 ok0 b1 b0 show ?thesis
    by simp
qed

lemma example_sa_ok: "anim_ok example_sa"
proof -
  have "tree_wf 2 example_heap"
    by (rule example_heap_wf)
  moreover have "ev_inv (bones_by_name (skel example_sa)) example_ev"
    unfolding example_ev_def by (rule make_evaluator_inv)
  ultimately show ?thesis
    by (simp add: anim_ok_def example_sa_def example_heap_def current_valid_def
        index_out_of_range_def size_index_def ran_def)
qed

lemma example_sa_facts:
  "root example_sa = Some 0" "size_index (current_anim example_sa) = 0"
  "animations example_sa = [example_ev]"
  by (simp_all add: example_sa_def size_index_def)

theorem sa_run_safe_witness:
  "anim_ok example_sa \<and>
   (\<exists>s'. sa_run [OpCalculate (1 / 2), OpSetAnimation ''walk'', OpPlayBackward, OpCalcBoneMatrices,
                 OpAdjustSpeedBy 50, OpCalculate 3] example_sa = Some s' \<and> anim_ok s')"
  using example_sa_ok sa_run_safe [OF example_sa_ok] by blast

theorem calculate_correct_witness:
  "anim_ok example_sa \<and> root example_sa = Some 0 \<and>
   ev_sorted (animations example_sa ! size_index (current_anim example_sa)) \<and>
   (\<exists>h1 s'. write_locals (pose_ref (1 / 2) (bones_by_name (skel example_sa)) example_ev)
                (heap (skel example_sa)) = Some h1 \<and>
      calculate (1 / 2) example_sa = Some s' \<and> shape (heap (skel s')) = shape h1 \<and>
      (\<forall>j \<in> subtree (heap (skel example_sa)) {0}. global_ok (heap (skel s')) j))"
proof -
  have sorted: "ev_sorted (animations example_sa ! size_index (current_anim example_sa))"
    using example_ev_sorted by (simp add: example_sa_facts)
  from calculate_correct [OF example_sa_ok example_sa_facts(1) sorted, of "1 / 2"]
  show ?thesis
    using example_sa_ok sorted by (simp add: example_sa_facts)
qed

theorem set_anim_index_spec_witness:
  "length (animations example_sa) < 2 ^ 63 \<and> set_anim_index (-1) example_sa = (False, example_sa) \<and>
   set_anim_index 0 example_sa = (False, example_sa)"
proof -
  have len: "length (animations example_sa) < 2 ^ 63"
    by (simp add: example_sa_facts)
  show ?thesis
    using set_anim_index_spec [OF len, of "-1"] set_anim_index_spec [OF len, of 0] len
    by (simp add: example_sa_facts example_sa_def)
qed

theorem calculate_invalid_noop_witness:
  "length (animations new_animator) < 2 ^ 63 \<and>
   (sint (current_anim new_animator) < 0 \<or> length (animations new_animator) \<le> nat (sint (current_anim new_animator))) \<and>
   calculate (1 / 2) new_animator = Some new_animator"
proof -
  have a: "length (animations new_animator) < 2 ^ 63"
    "sint (current_anim new_animator) < 0 \<or> length (animations new_animator) \<le> nat (sint (current_anim new_animator))"
    by (simp_all add: new_animator_def)
  from calculate_invalid_noop [OF a, of "1 / 2"] a show ?thesis
    by simp
qed

theorem bake_loop_frames_witness:
  "anim_ok example_sa \<and> 0 < length (animations example_sa) \<and>
   0 < ticks_per_second (animations example_sa ! 0) \<and>
   (\<exists>s'. bake_loop 0 0 0 example_sa = Some s' \<and> anim_ok s' \<and>
      length (transforms (animations s' ! 0)) = 30)"
proof -
  have a: "0 < length (animations example_sa)" "0 < ticks_per_second (animations example_sa ! 0)"
    by (simp_all add: example_sa_facts example_ev_def example_anim_def make_evaluator_def)
  have n: "length (transforms (animations example_sa ! 0)) +
      nat \<lceil>(duration (animations example_sa ! 0) - 0) * 30 / ticks_per_second (animations example_sa ! 0)\<rceil> = 30"
    by (simp add: example_sa_facts example_ev_def example_anim_def make_evaluator_def)
  from bake_loop_frames [OF example_sa_ok a, of 0 0] n example_sa_ok a show ?thesis
    by simp
qed

theorem bake_loop_diverges_witness:
  "ticks_per_second (animations (example_sa\<lparr>animations := [default_evaluator\<lparr>duration := 1\<rparr>]\<rparr>) ! 0) \<le> 0 \<and>
   0 < length (animations (example_sa\<lparr>animations := [default_evaluator\<lparr>duration := 1\<rparr>]\<rparr>)) \<and>
   0 < duration (animations (example_sa\<lparr>animations := [default_evaluator\<lparr>duration := 1\<rparr>]\<rparr>) ! 0) \<and>
   bake_loop 0 0 0 (example_sa\<lparr>animations := [default_evaluator\<lparr>duration := 1\<rparr>]\<rparr>) = None"
proof -
  let ?s = "example_sa\<lparr>animations := [default_evaluator\<lparr>duration := 1\<rparr>]\<rparr>"
  have a: "ticks_per_second (animations ?s ! 0) \<le> 0" "0 < length (animations ?s)"
    "0 < duration (animations ?s ! 0)"
    by (simp_all add: default_evaluator_def)
  from bake_loop_diverges [OF a, of 0] a show ?thesis
    by simp
qed

lemma example_codec_wf: "codec_wf example_codec"
  by (simp add: codec_wf_def example_codec_def)

lemma example_codec_exact:
  "dec_f32 example_codec (enc_f32 example_codec (of_nat n)) = of_nat n"
  "dec_f64 example_codec (enc_f64 example_codec (of_nat n)) = of_nat n" if "n < 2 ^ 32"
  using that by (simp_all add: example_codec_def u32_roundtrip unsigned_of_nat take_bit_nat_eq_self)

lemma example_ev_ok: "ev_ok example_codec example_ev"
proof -
  have "dec_f32 example_codec (enc_f32 example_codec x) = x"
    "dec_f64 example_codec (enc_f64 example_codec x) = x" if "x \<in> {0, 1, 10}" for x :: real
    using that example_codec_exact [of 0] example_codec_exact [of 1] example_codec_exact [of 10] by auto
  then show ?thesis
    by (simp add: ev_ok_def name_ok_def channel_ok_def channel_f32s_def channel_f64s_def example_defs
        make_evaluator_def make_channel_def)
qed

theorem load_ev_save_witness:
  "codec_wf example_codec \<and> ev_ok example_codec example_ev \<and>
   load_ev example_codec default_evaluator (save_ev example_codec example_ev @ [7]) =
     Some (example_ev\<lparr>play_forward := Some True, last_time := 0,
             last_positions := replicate (length (channels example_ev)) (0, 0, 0), transforms := []\<rparr>, [7])"
  using load_ev_save [OF example_codec_wf example_ev_ok, of "[7]"] example_codec_wf example_ev_ok by simp

theorem load_ev_long_name_witness:
  "250 \<le> length (ev_name (example_ev\<lparr>ev_name := replicate 250 CHR ''a''\<rparr>)) \<and>
   length (ev_name (example_ev\<lparr>ev_name := replicate 250 CHR ''a''\<rparr>)) < 2 ^ 32 \<and>
   load_ev example_codec default_evaluator (save_ev example_codec (example_ev\<lparr>ev_name := replicate 250 CHR ''a''\<rparr>)) = None"
  using load_ev_long_name [of "example_ev\<lparr>ev_name := replicate 250 CHR ''a''\<rparr>" example_codec default_evaluator "[]"]
  by simp

theorem read_name_nul_witness:
  "length [CHR ''a'', CHR 0x00, CHR ''b''] < 250 \<and>
   read_name (write_name [CHR ''a'', CHR 0x00, CHR ''b'']) = Some (''a'', [])"
  using read_name_nul [of "[CHR ''a'', CHR 0x00, CHR ''b'']" "[]"] by simp

theorem skeleton_save_load_witness:
  "\<exists>bs ids sk'. save_skel example_codec example_heap [0] = Some bs \<and>
     load_skel example_codec None 1 empty_skeleton (bs @ []) = Some (ids, sk', []) \<and>
     loaded None empty_skeleton ids [BTree ''root'' 1 1 [BTree ''arm'' 1 example_arm []]] sk'"
proof -
  have tr: "trees_of (heap (skel example_sa)) [0] = Some [BTree ''root'' 1 1 [BTree ''arm'' 1 example_arm []]]"
    by (simp add: example_sa_def example_heap_def trees_of_Cons new_bone_def)
  have ex: "dec_f32 example_codec (enc_f32 example_codec x) = x" if "x \<in> {0, 1, 2}" for x :: real
    using that example_codec_exact [of 0] example_codec_exact [of 1] example_codec_exact [of 2] by auto
  have ok: "\<forall>t \<in> set [BTree ''root'' 1 1 [BTree ''arm'' 1 example_arm []]]. tree_ok example_codec t"
    using ex by (simp add: name_ok_def one_mat4_def example_arm_def)
  have wf0: "tree_wf (next_id empty_skeleton) (heap empty_skeleton)"
    by (simp add: empty_skeleton_def tree_wf_def)
  show ?thesis
    using skeleton_save_load [OF example_codec_wf tr ok wf0, of "[]"] by (simp add: example_sa_def)
qed

theorem save_skel_terminates_witness:
  "tree_wf 2 example_heap \<and> example_heap 0 \<noteq> None \<and>
   (\<exists>bs ts. trees_of example_heap [0] = Some ts \<and> save_skel example_codec example_heap [0] = Some bs)"
proof -
  have "example_heap 0 \<noteq> None"
    by (simp add: example_heap_def)
  with example_heap_wf show ?thesis
    using save_skel_terminates [OF example_heap_wf, of 0 example_codec] by blast
qed

theorem save_load_no_skeleton_witness:
  "root new_animator = None \<and> animations new_animator = [] \<and> bone_ptrs new_animator = [] \<and>
   (\<exists>bs. save_sa example_codec new_animator = Some bs \<and> length bs = 8 \<and>
      (\<forall>s'. load_sa example_codec bs s' = None))"
  using save_load_no_skeleton [of new_animator example_codec] by (simp add: new_animator_def)

theorem uqt_to_udq_ref_witness:
  "uqt_to_udq [Vec4 0 0 0 0, Vec4 0 0 0 0] (MQuat 0 0 0 1) (Vec4 1 2 3 0) =
     Some [Vec4 0 0 0 1, Vec4 (1 / 2) 1 (3 / 2) 0]"
  using uqt_to_udq_ref [of "[Vec4 0 0 0 0, Vec4 0 0 0 0]" "MQuat 0 0 0 1" "Vec4 1 2 3 0"
      "[Vec4 0 0 0 1, Vec4 (1 / 2) 1 (3 / 2) 0]"]
  by (simp add: udq_ref_def pure_def)

theorem uqt_to_udq_translation_witness:
  "unit_quat (MQuat 0 0 1 0) \<and>
   uqt_to_udq [Vec4 0 0 0 0, Vec4 0 0 0 0] (MQuat 0 0 1 0) (Vec4 1 2 3 0) =
     Some [Vec4 0 0 1 0, Vec4 1 (- 1 / 2) 0 (- 3 / 2)] \<and>
   qscale 2 (qmul (Vec4 1 (- 1 / 2) 0 (- 3 / 2)) (qconj (Vec4 0 0 1 0))) = pure (Vec4 1 2 3 0)"
proof -
  have u: "unit_quat (MQuat 0 0 1 0)"
    by (simp add: unit_quat_def)
  have r: "uqt_to_udq [Vec4 0 0 0 0, Vec4 0 0 0 0] (MQuat 0 0 1 0) (Vec4 1 2 3 0) =
      Some [Vec4 0 0 1 0, Vec4 1 (- 1 / 2) 0 (- 3 / 2)]"
    by (simp add: uqt_to_udq_def)
  from uqt_to_udq_translation [OF u r] u r show ?thesis
    by simp
qed

theorem uqt_to_udq_unit_witness:
  "unit_quat (MQuat 0 0 1 0) \<and>
   uqt_to_udq [Vec4 0 0 0 0, Vec4 0 0 0 0] (MQuat 0 0 1 0) (Vec4 1 2 3 0) =
     Some [Vec4 0 0 1 0, Vec4 1 (- 1 / 2) 0 (- 3 / 2)] \<and>
   unit_dq (Vec4 0 0 1 0) (Vec4 1 (- 1 / 2) 0 (- 3 / 2))"
proof -
  have u: "unit_quat (MQuat 0 0 1 0)"
    by (simp add: unit_quat_def)
  have r: "uqt_to_udq [Vec4 0 0 0 0, Vec4 0 0 0 0] (MQuat 0 0 1 0) (Vec4 1 2 3 0) =
      Some [Vec4 0 0 1 0, Vec4 1 (- 1 / 2) 0 (- 3 / 2)]"
    by (simp add: uqt_to_udq_def)
  from uqt_to_udq_unit [OF u r] u r show ?thesis
    by simp
qed

theorem scene_save_load_witness:
  "\<exists>bs s'. save_sa example_codec example_sa = Some bs \<and> load_sa example_codec bs new_animator = Some s' \<and>
     anim_ok s' \<and>
     (\<exists>r'. root s' = Some r' \<and> trees_of (heap (skel s')) [r'] = Some [BTree ''root'' 1 1 [BTree ''arm'' 1 example_arm []]]) \<and>
     map ev_core (animations s') = [ev_core example_ev] \<and>
     map (\<lambda>p. map_option bone_name (heap (skel s') p)) (bone_ptrs s') = [Some ''root'', Some ''arm'']"
proof -
  have tr: "trees_of (heap (skel example_sa)) [0] = Some [BTree ''root'' 1 1 [BTree ''arm'' 1 example_arm []]]"
    by (simp add: example_sa_def example_heap_def trees_of_Cons new_bone_def)
  have ex: "dec_f32 example_codec (enc_f32 example_codec x) = x" if "x \<in> {0, 1, 2}" for x :: real
    using that example_codec_exact [of 0] example_codec_exact [of 1] example_codec_exact [of 2] by auto
  have tok: "\<forall>t \<in> set [BTree ''root'' 1 1 [BTree ''arm'' 1 example_arm []]]. tree_ok example_codec t"
    using ex by (simp add: name_ok_def one_mat4_def example_arm_def)
  have evs: "\<forall>ev \<in> set (animations example_sa). ev_ok example_codec ev \<and> 0 < ticks_per_second ev"
    using example_ev_ok by (simp add: example_sa_def example_ev_def make_evaluator_def example_anim_def)
  have h0: "heap (skel example_sa) 0 = Some ((new_bone ''root'' None 1)\<lparr>children := [1]\<rparr>)"
    by (simp add: example_sa_def example_heap_def)
  have s0: "0 \<in> subtree (heap (skel example_sa)) {0}"
    by (rule subtree.root) simp
  have s1: "1 \<in> subtree (heap (skel example_sa)) {0}"
    by (rule subtree.child [OF s0 h0]) simp
  have sub: "set (bone_ptrs example_sa) \<subseteq> subtree (heap (skel example_sa)) {0}"
    using s0 s1 by (simp add: example_sa_def)
  have misc: "root example_sa = Some 0" "animations example_sa \<noteq> []" "length (bone_ptrs example_sa) < 2 ^ 32"
    by (simp_all add: example_sa_def)
  from scene_save_load [OF example_codec_wf example_sa_ok misc(1) tr tok evs misc(2) sub misc(3)]
  show ?thesis
    by (simp add: example_sa_def example_heap_def new_bone_def)
qed

theorem evaluate_skips_unknown_witness:
  "length (last_positions example_ev) = length (channels example_ev) \<and>
   map fst (snd (evaluate (1 / 2) example_bones example_ev)) = [0] \<and>
   last_time (fst (evaluate (1 / 2) example_bones example_ev)) = 1 / 2"
proof -
  have len: "length (last_positions example_ev) = length (channels example_ev)"
    by (simp add: example_ev_def make_evaluator_def)
  have "List.map_filter (\<lambda>ch. example_bones (ch_name ch)) (channels example_ev) = [0]"
    by (simp add: example_defs make_evaluator_def make_channel_def map_filter_simps)
  moreover have "wrap_time (ticks_per_second example_ev) (duration example_ev) (1 / 2) = 1 / 2"
    by (simp add: example_defs make_evaluator_def wrap_time_def fmod_def trunc_real_def)
  ultimately show ?thesis
    using evaluate_skips_unknown [OF len, of "1 / 2" example_bones] len by simp
qed

theorem reinit_use_after_free_witness: "init example_scene example_sa = None"
proof (rule reinit_use_after_free)
  show "tree_wf (next_id (skel example_sa)) (heap (skel example_sa))"
    using example_heap_wf by (simp add: example_sa_def)
  show "root example_sa = Some 0" "bone_ptrs example_sa = 0 # [1]"
    "heap (skel example_sa) 0 \<noteq> None"
    "sc_animations example_scene \<noteq> []"
    "sc_meshes example_scene = (\<lparr>ab_name = ''root'', ab_offset = example_identity\<rparr> # []) # []"
    "bones_by_name (skel example_sa) (ab_name \<lparr>ab_name = ''root'', ab_offset = example_identity\<rparr>) \<noteq> None"
    by (simp_all add: example_sa_def example_heap_def example_scene_def)
  show "0 \<in> subtree (heap (skel example_sa)) {0}"
    by (rule subtree.root) simp
qed

theorem release_stale_animation_name_witness:
  "\<exists>s1. release example_sa = Some s1 \<and> animations s1 = [] \<and>
     set_animation ''walk'' s1 = (True, s1\<lparr>current_anim := 0\<rparr>) \<and>
     sa_step OpPlayForward (s1\<lparr>current_anim := 0\<rparr>) = None \<and>
     get_animation_speed (s1\<lparr>current_anim := 0\<rparr>) = None"
proof -
  obtain s1 where r: "release example_sa = Some s1"
    by (simp add: release_def example_sa_def example_heap_def delete_list_Cons new_bone_def)
  have "anim_name_to_id example_sa ''walk'' = Some 0"
    by (simp add: example_sa_def)
  from release_stale_animation_name [OF example_sa_ok r this, of 0] r show ?thesis
    by blast
qed

theorem bake_first_frame_witness:
  "\<exists>s' s1 fr. bake_loop 0 0 0 example_sa = Some s' \<and> calculate (1 / 30) example_sa = Some s1 \<and>
     frame_of s1 = Some fr \<and> transforms (animations s' ! 0) ! 0 = fr"
proof -
  have a: "0 < length (animations example_sa)" "0 < ticks_per_second (animations example_sa ! 0)"
    "0 < duration (animations example_sa ! 0)" "transforms (animations example_sa ! 0) = []"
    by (simp_all add: example_sa_facts example_ev_def example_anim_def make_evaluator_def)
  from bake_first_frame [OF example_sa_ok a(1-3)] a(4) show ?thesis
    by simp
qed

end
